theory Spec2Isabelle
  imports Complex_Main
begin

section \<open>Numbers and vectors of the host API\<close>

text \<open>
  The script \<^verbatim>\<open>fix_flipped_normals.py\<close> computes with the host's \<^verbatim>\<open>MVector\<close>, a
  triple of C doubles. A double is modelled as a real or one of the three special values
  of the format, and every arithmetic operation rounds its exact result to the nearest
  double, ties to the even significand, as the binary64 format prescribes: 53 bits of
  significand, exponents from \<open>-1022\<close> to \<open>1023\<close>, subnormal numbers below, an infinity
  from \<open>2\<^sup>1\<^sup>0\<^sup>2\<^sup>4\<close> on. The sign of a zero is not modelled.

  The special values matter because the script divides by the vertex count of a face
  without testing it (line 57) and a division of doubles by zero does not raise: it
  yields an infinity or, for \<^verbatim>\<open>0.0 / 0\<close>, a NaN that makes every later comparison false.
\<close>

datatype double = Fin real | PInf | NInf | NaN

text \<open>
  The exponent of the binade of \<open>r\<close>, found by counting up from the smallest one, and
  the rounding of a real quotient to the nearest integer, ties to even.
\<close>

function expo_from :: "int \<Rightarrow> real \<Rightarrow> int" where
  "expo_from e r = (if e < 1023 \<and> 2 powi (e + 1) \<le> \<bar>r\<bar> then expo_from (e + 1) r else e)"
  by pat_completeness auto
termination
  by (relation "measure (\<lambda>(e, r). nat (1023 - e))") auto

definition expo :: "real \<Rightarrow> int" where
  "expo r = expo_from (- 1022) r"

definition round_even :: "real \<Rightarrow> int" where
  "round_even q =
     (let f = \<lfloor>q\<rfloor> in
      if q - of_int f < 1 / 2 then f
      else if 1 / 2 < q - of_int f then f + 1
      else if even f then f else f + 1)"

definition overflow_threshold :: real where
  "overflow_threshold = 2 powi 1024"

text \<open>The double nearest to a real: a multiple of the unit in the last place of its binade.\<close>

definition rnd :: "real \<Rightarrow> double" where
  "rnd r =
     (let u = 2 powi (expo r - 52); v = of_int (round_even (r / u)) * u in
      if overflow_threshold \<le> \<bar>v\<bar> then (if 0 < r then PInf else NInf) else Fin v)"

text \<open>The reals that are doubles.\<close>

definition is_double :: "real \<Rightarrow> bool" where
  "is_double r = (rnd r = Fin r)"

text \<open>
  The quotient of a real by zero, by its sign, and the negative of a double, in which
  rounding is symmetric.
\<close>

definition inf_of_sign :: "real \<Rightarrow> double" where
  "inf_of_sign r = (if 0 < r then PInf else if r < 0 then NInf else NaN)"

fun dneg :: "double \<Rightarrow> double" where
  "dneg (Fin a) = Fin (- a)"
| "dneg PInf = NInf"
| "dneg NInf = PInf"
| "dneg NaN = NaN"

fun fadd :: "double \<Rightarrow> double \<Rightarrow> double" where
  "fadd (Fin a) (Fin b) = rnd (a + b)"
| "fadd NaN _ = NaN"
| "fadd _ NaN = NaN"
| "fadd PInf NInf = NaN"
| "fadd NInf PInf = NaN"
| "fadd PInf _ = PInf"
| "fadd _ PInf = PInf"
| "fadd NInf _ = NInf"
| "fadd _ NInf = NInf"

fun fmul :: "double \<Rightarrow> double \<Rightarrow> double" where
  "fmul (Fin a) (Fin b) = rnd (a * b)"
| "fmul NaN _ = NaN"
| "fmul _ NaN = NaN"
| "fmul PInf (Fin b) = inf_of_sign b"
| "fmul NInf (Fin b) = inf_of_sign (- b)"
| "fmul (Fin a) PInf = inf_of_sign a"
| "fmul (Fin a) NInf = inf_of_sign (- a)"
| "fmul PInf PInf = PInf"
| "fmul NInf NInf = PInf"
| "fmul PInf NInf = NInf"
| "fmul NInf PInf = NInf"

text \<open>
  Division. A zero divisor is taken as positive zero: the two divisors of the script are
  an unsigned vertex count and the length of a vector, neither of which is a negative
  zero.
\<close>

fun fdiv :: "double \<Rightarrow> double \<Rightarrow> double" where
  "fdiv (Fin a) (Fin b) = (if b = 0 then inf_of_sign a else rnd (a / b))"
| "fdiv NaN _ = NaN"
| "fdiv _ NaN = NaN"
| "fdiv (Fin a) PInf = Fin 0"
| "fdiv (Fin a) NInf = Fin 0"
| "fdiv PInf (Fin b) = (if b < 0 then NInf else PInf)"
| "fdiv NInf (Fin b) = (if b < 0 then PInf else NInf)"
| "fdiv PInf PInf = NaN"
| "fdiv PInf NInf = NaN"
| "fdiv NInf PInf = NaN"
| "fdiv NInf NInf = NaN"

fun fsqrt :: "double \<Rightarrow> double" where
  "fsqrt (Fin a) = (if a < 0 then NaN else rnd (sqrt a))"
| "fsqrt PInf = PInf"
| "fsqrt NInf = NaN"
| "fsqrt NaN = NaN"

text \<open>The comparison \<^verbatim>\<open><\<close> of doubles: false as soon as one side is a NaN.\<close>

fun fless :: "double \<Rightarrow> double \<Rightarrow> bool" where
  "fless (Fin a) (Fin b) = (a < b)"
| "fless NaN _ = False"
| "fless _ NaN = False"
| "fless NInf NInf = False"
| "fless NInf _ = True"
| "fless _ NInf = False"
| "fless PInf _ = False"
| "fless _ PInf = True"

text \<open>
  \<^verbatim>\<open>MVector\<close>: the default constructor is the zero vector, \<^verbatim>\<open>+\<close> adds componentwise,
  \<^verbatim>\<open>/\<close> divides every component by a scalar, \<^verbatim>\<open>*\<close> between two vectors is the dot
  product, \<^verbatim>\<open>length()\<close> is the Euclidean norm and \<^verbatim>\<open>normal()\<close> the vector divided by its
  length, each computed with the rounded operations above in the order written here.
  \<open>vscale\<close> is not called by the script: it is the exact product of a vector and a
  positive real, used to state the invariance under scaling.
\<close>

datatype MVector = MVector (vx: double) (vy: double) (vz: double)

definition vzero :: MVector where
  "vzero = MVector (Fin 0) (Fin 0) (Fin 0)"

definition vadd :: "MVector \<Rightarrow> MVector \<Rightarrow> MVector" where
  "vadd u v = MVector (fadd (vx u) (vx v)) (fadd (vy u) (vy v)) (fadd (vz u) (vz v))"

definition vdiv :: "MVector \<Rightarrow> double \<Rightarrow> MVector" where
  "vdiv v s = MVector (fdiv (vx v) s) (fdiv (vy v) s) (fdiv (vz v) s)"

definition vdot :: "MVector \<Rightarrow> MVector \<Rightarrow> double" where
  "vdot u v = fadd (fadd (fmul (vx u) (vx v)) (fmul (vy u) (vy v))) (fmul (vz u) (vz v))"

definition vlength :: "MVector \<Rightarrow> double" where
  "vlength v = fsqrt (vdot v v)"

definition vnormal :: "MVector \<Rightarrow> MVector" where
  "vnormal v = vdiv v (vlength v)"

fun dscale :: "real \<Rightarrow> double \<Rightarrow> double" where
  "dscale c (Fin a) = Fin (c * a)"
| "dscale c x = x"

definition vscale :: "real \<Rightarrow> MVector \<Rightarrow> MVector" where
  "vscale c v = MVector (dscale c (vx v)) (dscale c (vy v)) (dscale c (vz v))"

section \<open>The mesh and the state of the script\<close>

text \<open>
  What the script reads from \<^verbatim>\<open>mesh_fn\<close>: the vertex positions (\<^verbatim>\<open>getPoints\<close>), the
  vertex ids of every polygon (\<^verbatim>\<open>getPolygonVertices\<close>, \<^verbatim>\<open>numPolygons\<close> is the length of
  that list) and one normal per polygon (\<^verbatim>\<open>getPolygonNormal\<close>). Vertex ids are natural
  numbers. A read outside a sequence is the error \<open>IndexError\<close>.
\<close>

record MFnMesh =
  vertices :: "MVector list"
  faces :: "nat list list"
  normals :: "MVector list"

record state =
  mesh_fn :: MFnMesh
  flipped_faces :: "nat list"

datatype error = IndexError

text \<open>Lines 54 to 56: the inner loop that adds the positions of a face's vertices.\<close>

fun sum_center :: "MVector list \<Rightarrow> nat list \<Rightarrow> MVector \<Rightarrow> error + MVector" where
  "sum_center pts [] center = Inr center"
| "sum_center pts (v # vs) center =
     (if v < length pts then sum_center pts vs (vadd center (pts ! v)) else Inl IndexError)"

text \<open>
  Lines 46 to 62 for one face: the centre of the face, then the test of the normal.
  The result is whether the face is to be appended to \<^verbatim>\<open>flipped_faces\<close>.
\<close>

definition face_center :: "MVector list \<Rightarrow> nat list \<Rightarrow> error + MVector" where
  "face_center pts vertex_list =
     (case sum_center pts vertex_list vzero of
        Inl e \<Rightarrow> Inl e
      | Inr center \<Rightarrow> Inr (vdiv center (Fin (real (length vertex_list)))))"

definition normal_points_inward :: "MVector \<Rightarrow> MVector \<Rightarrow> bool" where
  "normal_points_inward normal center =
     (if fless (Fin 0) (vlength normal)
      then fless (vdot (vnormal normal) center) (Fin 0)
      else False)"

definition is_flipped :: "MVector list \<Rightarrow> nat list \<Rightarrow> MVector \<Rightarrow> error + bool" where
  "is_flipped pts vertex_list normal =
     (case face_center pts vertex_list of
        Inl e \<Rightarrow> Inl e
      | Inr center \<Rightarrow> Inr (normal_points_inward normal center))"

text \<open>
  One turn of the loop of line 41. An error leaves the loop with the state it was
  raised in.
\<close>

definition face_step :: "nat \<Rightarrow> state \<Rightarrow> (error \<times> state) + state" where
  "face_step face_id s =
     (let m = mesh_fn s in
      if face_id < length (normals m) \<and> face_id < length (faces m) then
        (case is_flipped (vertices m) (faces m ! face_id) (normals m ! face_id) of
           Inl e \<Rightarrow> Inl (e, s)
         | Inr True \<Rightarrow> Inr (s\<lparr>flipped_faces := flipped_faces s @ [face_id]\<rparr>)
         | Inr False \<Rightarrow> Inr s)
      else Inl (IndexError, s))"

fun face_loop :: "nat list \<Rightarrow> state \<Rightarrow> (error \<times> state) + state" where
  "face_loop [] s = Inr s"
| "face_loop (face_id # ids) s =
     (case face_step face_id s of
        Inl e \<Rightarrow> Inl e
      | Inr s' \<Rightarrow> face_loop ids s')"

text \<open>
  Lines 36 to 63 of \<^verbatim>\<open>fix_flipped_normals\<close> for one mesh: \<^verbatim>\<open>flipped_faces\<close> is set to the
  empty list, then every face id below \<^verbatim>\<open>numPolygons\<close> is visited in order. The selection
  of the mesh before these lines and the repair command and the log after them belong to
  the host and are not part of the model.
\<close>

definition fix_flipped_normals :: "state \<Rightarrow> (error \<times> state) + state" where
  "fix_flipped_normals s =
     face_loop [0 ..< length (faces (mesh_fn s))] (s\<lparr>flipped_faces := []\<rparr>)"

definition final_state :: "(error \<times> state) + state \<Rightarrow> state" where
  "final_state r = (case r of Inl (e, s) \<Rightarrow> s | Inr s \<Rightarrow> s)"

text \<open>
  The classifier of the specification: from the three sequences to the flagged face
  ids, in the order the script appends them.
\<close>

definition classify :: "MVector list \<Rightarrow> nat list list \<Rightarrow> MVector list \<Rightarrow> error + nat list" where
  "classify pts fs ns =
     (case fix_flipped_normals \<lparr>mesh_fn = \<lparr>vertices = pts, faces = fs, normals = ns\<rparr>, flipped_faces = []\<rparr> of
        Inl (e, s) \<Rightarrow> Inl e
      | Inr s \<Rightarrow> Inr (flipped_faces s))"

section \<open>The specification's words\<close>

text \<open>
  The face centre and the dot product \<open>d\<close> of the specification, in exact real
  arithmetic: the average of \<open>vertices[v]\<close> for \<open>v\<close> in the face, and the dot product of
  the unit normal \<open>n / |n|\<close> with it. They are meant for finite coordinates.
\<close>

fun the_real :: "double \<Rightarrow> real" where
  "the_real (Fin a) = a"
| "the_real _ = 0"

definition exact_center :: "(MVector \<Rightarrow> double) \<Rightarrow> MVector list \<Rightarrow> nat list \<Rightarrow> real" where
  "exact_center coord pts f = (\<Sum>v\<leftarrow>f. the_real (coord (pts ! v))) / real (length f)"

definition exact_dot :: "MVector list \<Rightarrow> nat list \<Rightarrow> MVector \<Rightarrow> real" where
  "exact_dot pts f n =
     (the_real (vx n) * exact_center vx pts f + the_real (vy n) * exact_center vy pts f +
      the_real (vz n) * exact_center vz pts f)
     / sqrt ((the_real (vx n))\<^sup>2 + (the_real (vy n))\<^sup>2 + (the_real (vz n))\<^sup>2)"

text \<open>
  The same two quantities as the script computes them, every operation rounded: the
  running sum of the inner loop divided by the vertex count, and the dot product of
  \<^verbatim>\<open>normal()\<close> with it.
\<close>

definition computed_center :: "MVector list \<Rightarrow> nat list \<Rightarrow> MVector" where
  "computed_center pts f =
     vdiv (foldl vadd vzero (map (\<lambda>v. pts ! v) f)) (Fin (real (length f)))"

definition computed_dot :: "MVector list \<Rightarrow> nat list \<Rightarrow> MVector \<Rightarrow> double" where
  "computed_dot pts f n = vdot (vdiv n (vlength n)) (computed_center pts f)"

text \<open>
  The preconditions of the contract: as many normals as faces, every face with at least
  one vertex, every vertex id of every face an index into the vertex list.
\<close>

definition well_formed :: "MVector list \<Rightarrow> nat list list \<Rightarrow> MVector list \<Rightarrow> bool" where
  "well_formed pts fs ns =
     (length fs = length ns \<and> (\<forall>f\<in>set fs. f \<noteq> [] \<and> (\<forall>v\<in>set f. v < length pts)))"

text \<open>The normals \<open>ns'\<close> are the normals \<open>ns\<close> with some of them multiplied by \<open>c\<close>.\<close>

definition scaled_normals :: "real \<Rightarrow> MVector list \<Rightarrow> MVector list \<Rightarrow> bool" where
  "scaled_normals c ns ns' =
     (length ns' = length ns \<and>
      (\<forall>i<length ns. ns' ! i = ns ! i \<or> ns' ! i = vscale c (ns ! i)))"

text \<open>
  A normal that a power of two can scale without overflow or underflow in the squares
  of its length: finite components, each zero or of a magnitude between \<open>2\<^sup>-\<^sup>5\<^sup>0\<^sup>0\<close> and
  \<open>2\<^sup>5\<^sup>0\<^sup>0\<close>.
\<close>

definition safe_component :: "double \<Rightarrow> bool" where
  "safe_component x =
     (case x of
        Fin a \<Rightarrow> a = 0 \<or> (2 powi (- 500) \<le> \<bar>a\<bar> \<and> \<bar>a\<bar> \<le> 2 powi 500)
      | _ \<Rightarrow> False)"

definition safe_normal :: "MVector \<Rightarrow> bool" where
  "safe_normal n = (safe_component (vx n) \<and> safe_component (vy n) \<and> safe_component (vz n))"

text \<open>
  The normals \<open>ns'\<close> are the normals \<open>ns\<close> with some of them multiplied by \<open>2\<^sup>j\<close>, each of
  these safe before and after.
\<close>

definition pow2_scaled_normals :: "int \<Rightarrow> MVector list \<Rightarrow> MVector list \<Rightarrow> bool" where
  "pow2_scaled_normals j ns ns' =
     (length ns' = length ns \<and>
      (\<forall>i<length ns. ns' ! i = ns ! i \<or>
         (ns' ! i = vscale (2 powi j) (ns ! i) \<and> safe_normal (ns ! i) \<and> safe_normal (ns' ! i))))"

text \<open>Two states whose normals pass the test of lines 60 to 62 alike on every centre.\<close>

definition alike_state :: "state \<Rightarrow> state \<Rightarrow> bool" where
  "alike_state s s' =
     (vertices (mesh_fn s') = vertices (mesh_fn s) \<and>
      faces (mesh_fn s') = faces (mesh_fn s) \<and>
      length (normals (mesh_fn s')) = length (normals (mesh_fn s)) \<and>
      (\<forall>i<length (normals (mesh_fn s)). \<forall>c.
         normal_points_inward (normals (mesh_fn s') ! i) c =
         normal_points_inward (normals (mesh_fn s) ! i) c) \<and>
      flipped_faces s' = flipped_faces s)"

text \<open>Whether the loop appends face \<open>i\<close> of the mesh.\<close>

definition flags_face :: "MFnMesh \<Rightarrow> nat \<Rightarrow> bool" where
  "flags_face m i = (is_flipped (vertices m) (faces m ! i) (normals m ! i) = Inr True)"

text \<open>
  The data of the specification's scenarios: the triangle on the three unit points with
  the normals \<open>(-1,-1,-1)\<close> and \<open>(1,1,1)\<close>, and the quad in the plane \<open>z = 0\<close>.
\<close>

definition tri_pts :: "MVector list" where
  "tri_pts = [MVector (Fin 1) (Fin 0) (Fin 0), MVector (Fin 0) (Fin 1) (Fin 0),
              MVector (Fin 0) (Fin 0) (Fin 1)]"

definition n_in :: MVector where
  "n_in = MVector (Fin (- 1)) (Fin (- 1)) (Fin (- 1))"

definition n_out :: MVector where
  "n_out = MVector (Fin 1) (Fin 1) (Fin 1)"

definition quad_pts :: "MVector list" where
  "quad_pts = [MVector (Fin 2) (Fin 0) (Fin 0), MVector (Fin 2) (Fin 2) (Fin 0),
               MVector (Fin 0) (Fin 2) (Fin 0), MVector (Fin 0) (Fin 0) (Fin 0)]"

text \<open>
  Inputs on which rounding decides. \<open>d03\<close>, \<open>d12\<close> and \<open>d27\<close> are the doubles nearest to
  \<open>0.3\<close>, \<open>1.2\<close> and \<open>2.7\<close>. The triangle \<open>round_tri\<close> has the \<open>x\<close> coordinates \<open>-3\<close>,
  \<open>d03\<close>, \<open>d27\<close>, whose exact sum is \<open>3 / 2\<^sup>5\<^sup>4\<close> and whose running sum in doubles is
  \<open>0\<close>. The quad \<open>round_quad\<close> has the \<open>x\<close> coordinates \<open>-1.5\<close>, \<open>-d12\<close>, \<open>d12\<close>, \<open>1.5\<close>,
  whose exact sum is \<open>0\<close> and whose running sum in doubles is \<open>-1 / 2\<^sup>5\<^sup>2\<close>.
\<close>

definition d03 :: real where
  "d03 = 5404319552844595 / 2 ^ 54"

definition d12 :: real where
  "d12 = 5404319552844595 / 2 ^ 52"

definition d27 :: real where
  "d27 = 3039929748475085 / 2 ^ 50"

definition round_tri :: "MVector list" where
  "round_tri = [MVector (Fin (- 3)) (Fin 0) (Fin 0), MVector (Fin d03) (Fin 1) (Fin 0),
                MVector (Fin d27) (Fin 0) (Fin 1)]"

definition round_quad :: "MVector list" where
  "round_quad = [MVector (Fin (- (3 / 2))) (Fin 0) (Fin 0), MVector (Fin (- d12)) (Fin 1) (Fin 0),
                 MVector (Fin d12) (Fin 1) (Fin 1), MVector (Fin (3 / 2)) (Fin 0) (Fin 1)]"

text \<open>
  Inputs on which a scaled normal decides otherwise. On the triangle \<open>slant_tri\<close>, whose
  centre is \<open>(-2, 3, -1)\<close>, the normal \<open>(-1,-1,-1)\<close> and three times it give unit normals
  that differ in the last bit. \<open>huge\<close> is \<open>2\<^sup>6\<^sup>0\<^sup>0\<close>, whose square is beyond the doubles.
\<close>

definition slant_tri :: "MVector list" where
  "slant_tri = [MVector (Fin (- 1)) (Fin 3) (Fin (- 1)), MVector (Fin (- 3)) (Fin 4) (Fin (- 1)),
                MVector (Fin (- 2)) (Fin 2) (Fin (- 1))]"

definition huge :: real where
  "huge = 2 powi 600"

text \<open>
  Two non-negative reals, the second \<open>2\<^sup>J\<close> times the first, both zero or both between
  \<open>2\<^sup>-\<^sup>1\<^sup>0\<^sup>0\<^sup>0\<close> and \<open>2\<^sup>B\<close>: the squares and sums under the root of a length and of the
  length of the scaled vector.
\<close>

definition scaled_pair :: "int \<Rightarrow> int \<Rightarrow> real \<Rightarrow> real \<Rightarrow> bool" where
  "scaled_pair J B v w =
     (w = 2 powi J * v \<and>
      (v = 0 \<or> (2 powi (- 1000) \<le> v \<and> v \<le> 2 powi B \<and> 2 powi (- 1000) \<le> w \<and> w \<le> 2 powi B)))"

section \<open>Rounding to the nearest double\<close>

declare expo_from.simps [simp del]

lemma expo_from_props:
  "e \<le> 1023 \<Longrightarrow>
     e \<le> expo_from e r \<and> expo_from e r \<le> 1023 \<and>
     (e < expo_from e r \<longrightarrow> 2 powi (expo_from e r) \<le> \<bar>r\<bar>) \<and>
     (expo_from e r < 1023 \<longrightarrow> \<bar>r\<bar> < 2 powi (expo_from e r + 1))"
proof (induction e r rule: expo_from.induct)
  case (1 e r)
  show ?case
  proof (cases "e < 1023 \<and> 2 powi (e + 1) \<le> \<bar>r\<bar>")
    case True
    then have eq: "expo_from e r = expo_from (e + 1) r"
      by (subst expo_from.simps) simp
    from True have "e + 1 \<le> 1023" by simp
    from "1.IH"[OF True this] True show ?thesis
      unfolding eq by (cases "e + 1 = expo_from (e + 1) r") auto
  next
    case False
    then have eq: "expo_from e r = e"
      by (subst expo_from.simps) auto
    from False "1.prems" show ?thesis
      unfolding eq by auto
  qed
qed

lemma expo_props:
  "- 1022 \<le> expo r" "expo r \<le> 1023"
  "- 1022 < expo r \<Longrightarrow> 2 powi (expo r) \<le> \<bar>r\<bar>"
  "expo r < 1023 \<Longrightarrow> \<bar>r\<bar> < 2 powi (expo r + 1)"
  using expo_from_props[of "- 1022" r] by (simp_all add: expo_def)

text \<open>The exponent is the one whose binade holds the number.\<close>

lemma expo_eqI:
  assumes "- 1022 \<le> k" "k \<le> 1023"
    and "- 1022 < k \<Longrightarrow> 2 powi k \<le> \<bar>r\<bar>"
    and "k < 1023 \<Longrightarrow> \<bar>r\<bar> < 2 powi (k + 1)"
  shows "expo r = k"
proof (rule ccontr)
  assume ne: "expo r \<noteq> k"
  show False
  proof (cases "expo r < k")
    case True
    then have "expo r < 1023" "- 1022 < k" using assms(1,2) expo_props(1)[of r] by auto
    then have "\<bar>r\<bar> < 2 powi (expo r + 1)" "2 powi k \<le> \<bar>r\<bar>"
      using expo_props(4) assms(3) by auto
    moreover have "(2::real) powi (expo r + 1) \<le> 2 powi k"
      using True by (intro power_int_increasing) auto
    ultimately show False by simp
  next
    case False
    with ne have gt: "k < expo r" by simp
    then have "k < 1023" "- 1022 < expo r" using assms(1) expo_props(2)[of r] by auto
    then have "\<bar>r\<bar> < 2 powi (k + 1)" "2 powi (expo r) \<le> \<bar>r\<bar>"
      using expo_props(3) assms(4) by auto
    moreover have "(2::real) powi (k + 1) \<le> 2 powi (expo r)"
      using gt by (intro power_int_increasing) auto
    ultimately show False by simp
  qed
qed

lemma expo_from_minus: "expo_from e (- r) = expo_from e r"
proof (induction e r rule: expo_from.induct)
  case (1 e r)
  show ?case
    by (subst (1 2) expo_from.simps) (use 1 in auto)
qed

lemma expo_minus [simp]: "expo (- r) = expo r"
  by (simp add: expo_def expo_from_minus)

lemma round_even_cases:
  "round_even q = \<lfloor>q\<rfloor> \<or> (round_even q = \<lfloor>q\<rfloor> + 1 \<and> of_int \<lfloor>q\<rfloor> < q)"
  by (auto simp: round_even_def Let_def)

lemma round_even_ge: "of_int a \<le> q \<Longrightarrow> a \<le> round_even q"
proof -
  assume "of_int a \<le> q"
  then have "a \<le> \<lfloor>q\<rfloor>" by (simp add: le_floor_iff)
  with round_even_cases[of q] show ?thesis by auto
qed

lemma round_even_le: "q \<le> of_int b \<Longrightarrow> round_even q \<le> b"
proof -
  assume b: "q \<le> of_int b"
  then have f: "\<lfloor>q\<rfloor> \<le> b" by (simp add: floor_le_iff)
  show ?thesis
  proof (cases "round_even q = \<lfloor>q\<rfloor>")
    case True
    with f show ?thesis by simp
  next
    case False
    with round_even_cases[of q] have r: "round_even q = \<lfloor>q\<rfloor> + 1" and lt: "of_int \<lfloor>q\<rfloor> < q"
      by auto
    from lt b have "of_int \<lfloor>q\<rfloor> < (of_int b :: real)" by simp
    then have "\<lfloor>q\<rfloor> < b" by simp
    with r show ?thesis by simp
  qed
qed

lemma round_even_of_int [simp]: "round_even (of_int n) = n"
  by (simp add: round_even_def)

lemma round_even_0 [simp]: "round_even 0 = 0"
  using round_even_of_int[of 0] by simp

lemma round_even_near: "\<bar>q - of_int n\<bar> < 1 / 2 \<Longrightarrow> round_even q = n"
proof -
  assume a: "\<bar>q - of_int n\<bar> < 1 / 2"
  show ?thesis
  proof (cases "of_int n \<le> q")
    case True
    with a have "\<lfloor>q\<rfloor> = n" by (intro floor_unique) auto
    with a True show ?thesis by (auto simp: round_even_def Let_def)
  next
    case False
    with a have f: "\<lfloor>q\<rfloor> = n - 1" by (intro floor_unique) auto
    with a False show ?thesis by (auto simp: round_even_def Let_def)
  qed
qed

lemma round_even_tie: "q = of_int f + 1 / 2 \<Longrightarrow> round_even q = (if even f then f else f + 1)"
proof -
  assume q: "q = of_int f + 1 / 2"
  then have "\<lfloor>q\<rfloor> = f" by (intro floor_unique) auto
  with q show ?thesis by (simp add: round_even_def Let_def)
qed

lemma round_even_minus: "round_even (- q) = - round_even q"
proof (cases "q = of_int \<lfloor>q\<rfloor>")
  case True
  then obtain n where "q = of_int n" by blast
  then have "- q = of_int (- n)" by simp
  then show ?thesis using \<open>q = of_int n\<close> by (simp only: round_even_of_int)
next
  case False
  let ?f = "\<lfloor>q\<rfloor>"
  have le: "of_int ?f \<le> q" and lt1: "q < of_int ?f + 1" by linarith+
  have lt: "of_int ?f < q" by (metis le False less_le)
  have fl: "\<lfloor>- q\<rfloor> = - ?f - 1"
  proof (rule floor_unique)
    have c: "of_int (- ?f - 1) = - of_int ?f - (1::real)" by simp
    show "of_int (- ?f - 1) \<le> - q" unfolding c using lt1 by linarith
    show "- q < of_int (- ?f - 1) + 1" unfolding c using lt by linarith
  qed
  consider "q - of_int ?f < 1 / 2" | "1 / 2 < q - of_int ?f" | "q - of_int ?f = 1 / 2" by linarith
  then show ?thesis
  proof cases
    case 1
    then show ?thesis using fl by (simp add: round_even_def Let_def)
  next
    case 2
    then show ?thesis using fl by (simp add: round_even_def Let_def)
  next
    case 3
    then show ?thesis using fl by (auto simp: round_even_def Let_def)
  qed
qed

lemma pow2_split: "(2::real) powi k = 2 powi (k - 52) * 2 ^ 52"
  using power_int_add[of "2::real" "k - 52" 52] by simp

lemma pow2_split1: "(2::real) powi (k + 1) = 2 powi (k - 52) * 2 ^ 53"
  using power_int_add[of "2::real" "k - 52" 53] by (simp add: algebra_simps)

lemma threshold_pos: "0 < overflow_threshold"
  by (simp add: overflow_threshold_def)

lemma pow2_less_threshold: "b \<le> 1023 \<Longrightarrow> (2::real) powi b < overflow_threshold"
  unfolding overflow_threshold_def by (rule power_int_strict_increasing) simp_all

text \<open>The rounded value when the quotient by the unit in the last place is bracketed.\<close>

lemma rnd_core:
  assumes k: "expo r = k"
    and lo: "of_int lo \<le> r / 2 powi (k - 52)" and hi: "r / 2 powi (k - 52) \<le> of_int hi"
    and blo: "- overflow_threshold < of_int lo * 2 powi (k - 52)"
    and bhi: "of_int hi * 2 powi (k - 52) < overflow_threshold"
  shows "\<exists>n. rnd r = Fin (of_int n * 2 powi (k - 52)) \<and> lo \<le> n \<and> n \<le> hi \<and>
             n = round_even (r / 2 powi (k - 52))"
proof -
  let ?u = "(2::real) powi (k - 52)"
  let ?n = "round_even (r / ?u)"
  have u: "0 < ?u" by simp
  have n: "lo \<le> ?n" "?n \<le> hi" using round_even_ge[OF lo] round_even_le[OF hi] by auto
  then have m: "of_int lo * ?u \<le> of_int ?n * ?u" "of_int ?n * ?u \<le> of_int hi * ?u"
    using u by (simp_all add: mult_right_mono)
  from m blo bhi have "\<bar>of_int ?n * ?u\<bar> < overflow_threshold" by linarith
  then have "rnd r = Fin (of_int ?n * ?u)"
    by (simp add: rnd_def k Let_def)
  with n show ?thesis by blast
qed

lemma rnd_0 [simp]: "rnd 0 = Fin 0"
  using threshold_pos by (simp add: rnd_def Let_def)

lemma rnd_minus: "rnd (- r) = dneg (rnd r)"
proof (cases "r = 0")
  case True
  then show ?thesis by simp
next
  case False
  then show ?thesis
    by (auto simp: rnd_def Let_def round_even_minus)
qed

lemma expo_pos_range:
  assumes "2 powi a \<le> r" "r \<le> 2 powi b" "- 1022 \<le> a" "b \<le> 1023"
  shows "a \<le> expo r" "expo r \<le> b" "2 powi (expo r) \<le> r"
proof -
  have "0 < (2::real) powi a" by simp
  with assms(1) have r: "0 < r" "\<bar>r\<bar> = r" by linarith+
  show a: "a \<le> expo r"
  proof (cases "expo r < 1023")
    case True
    from expo_props(4)[OF True] r assms(1) have lt: "(2::real) powi a < 2 powi (expo r + 1)"
      by simp
    have "a < expo r + 1"
    proof (rule ccontr)
      assume "\<not> a < expo r + 1"
      then have "(2::real) powi (expo r + 1) \<le> 2 powi a" by (intro power_int_increasing) auto
      with lt show False by simp
    qed
    then show ?thesis by simp
  next
    case False
    with expo_props(2)[of r] have "expo r = 1023" by simp
    moreover have "a \<le> b"
    proof (rule ccontr)
      assume "\<not> a \<le> b"
      then have "(2::real) powi b < 2 powi a" by (intro power_int_strict_increasing) auto
      with assms(1,2) show False by simp
    qed
    ultimately show ?thesis using assms(4) by simp
  qed
  show p: "2 powi (expo r) \<le> r"
  proof (cases "- 1022 < expo r")
    case True
    from expo_props(3)[OF True] r show ?thesis by simp
  next
    case False
    with expo_props(1)[of r] have "expo r = - 1022" by simp
    with a assms(3) have "expo r = a" by simp
    with assms(1) show ?thesis by simp
  qed
  show "expo r \<le> b"
  proof (rule ccontr)
    assume "\<not> expo r \<le> b"
    then have "(2::real) powi b < 2 powi (expo r)" by (intro power_int_strict_increasing) auto
    with p assms(2) show False by simp
  qed
qed

text \<open>A positive real between two powers of two rounds to a double between them.\<close>

lemma rnd_pos_form:
  assumes "2 powi a \<le> r" "r \<le> 2 powi b" "- 1022 \<le> a" "b \<le> 1023"
  shows "rnd r = Fin (of_int (round_even (r / 2 powi (expo r - 52))) * 2 powi (expo r - 52)) \<and>
         2 powi a \<le> real_of_int (round_even (r / 2 powi (expo r - 52))) * 2 powi (expo r - 52) \<and>
         real_of_int (round_even (r / 2 powi (expo r - 52))) * 2 powi (expo r - 52) \<le> 2 powi b"
proof -
  let ?k = "expo r"
  let ?u = "(2::real) powi (?k - 52)"
  note e = expo_pos_range[OF assms]
  have u: "0 < ?u" by simp
  have lo: "of_int (2 ^ 52) \<le> r / ?u"
    using e(3) u by (simp add: pos_le_divide_eq pow2_split[of ?k] mult.commute)
  define hi :: int where "hi = (if ?k < b then 2 ^ 53 else 2 ^ 52)"
  have hi: "r / ?u \<le> of_int hi"
  proof (cases "?k < b")
    case True
    then have "?k < 1023" using assms(4) by simp
    from expo_props(4)[OF this] have "r < 2 powi (?k + 1)" by simp
    then show ?thesis using u True
      by (simp add: hi_def pos_divide_le_eq pow2_split1[of ?k] mult.commute)
  next
    case False
    with e(2) have "?k = b" by simp
    with assms(2) have "r \<le> 2 powi ?k" by simp
    then show ?thesis using u False
      by (simp add: hi_def pos_divide_le_eq pow2_split[of ?k] mult.commute)
  qed
  have hib: "of_int hi * ?u \<le> 2 powi b"
  proof (cases "?k < b")
    case True
    then have "(2::real) powi (?k + 1) \<le> 2 powi b" by (intro power_int_increasing) auto
    then show ?thesis using True by (simp add: hi_def pow2_split1[of ?k] mult.commute)
  next
    case False
    with e(2) have "?k = b" by simp
    then have "(2::real) powi ?k \<le> 2 powi b" by simp
    then show ?thesis using False by (simp add: hi_def pow2_split[of ?k] mult.commute)
  qed
  have blo: "- overflow_threshold < of_int (2 ^ 52) * ?u"
    using threshold_pos u by (simp add: less_le_trans[of _ 0])
  have bhi: "of_int hi * ?u < overflow_threshold"
    using hib pow2_less_threshold[OF assms(4)] by linarith
  from rnd_core[OF refl lo hi blo bhi] obtain n where
    n: "rnd r = Fin (of_int n * ?u)" "2 ^ 52 \<le> n" "n \<le> hi"
       "n = round_even (r / ?u)" by blast
  have "2 powi ?k \<le> of_int n * ?u"
    using n(2) u by (simp add: pow2_split[of ?k] mult.commute)
  moreover have "(2::real) powi a \<le> 2 powi ?k" using e(1) by (intro power_int_increasing) auto
  ultimately have v1: "2 powi a \<le> of_int n * ?u" by linarith
  have "of_int n * ?u \<le> of_int hi * ?u" using n(3) u by (simp add: mult_right_mono)
  with hib have v2: "of_int n * ?u \<le> 2 powi b" by linarith
  from n(1) v1 v2 show ?thesis unfolding n(4) by blast
qed

lemma rnd_range_pos:
  assumes "2 powi a \<le> r" "r \<le> 2 powi b" "- 1022 \<le> a" "b \<le> 1023"
  shows "\<exists>v. rnd r = Fin v \<and> 2 powi a \<le> v \<and> v \<le> 2 powi b"
  using rnd_pos_form[OF assms] by blast

lemma rnd_range_neg:
  assumes "- (2 powi b) \<le> r" "r \<le> - (2 powi a)" "- 1022 \<le> a" "b \<le> 1023"
  shows "\<exists>v. rnd r = Fin v \<and> - (2 powi b) \<le> v \<and> v \<le> - (2 powi a)"
proof -
  from assms have "2 powi a \<le> - r" "- r \<le> 2 powi b" by auto
  from rnd_range_pos[OF this assms(3,4)] obtain v where
    "rnd (- r) = Fin v" "2 powi a \<le> v" "v \<le> 2 powi b" by blast
  then show ?thesis
    using rnd_minus[of r] by (cases "rnd r") auto
qed

lemma rnd_nonneg: "0 \<le> r \<Longrightarrow> rnd r = PInf \<or> (\<exists>v\<ge>0. rnd r = Fin v)"
proof -
  assume r: "0 \<le> r"
  have "0 \<le> r / 2 powi (expo r - 52)" using r by simp
  then have "0 \<le> round_even (r / 2 powi (expo r - 52))"
    using round_even_ge[of 0] by simp
  then have "0 \<le> real_of_int (round_even (r / 2 powi (expo r - 52))) * 2 powi (expo r - 52)"
    by simp
  then show ?thesis using r threshold_pos
    by (cases "r = 0") (auto simp: rnd_def Let_def)
qed

text \<open>From \<open>2\<^sup>1\<^sup>0\<^sup>2\<^sup>4\<close> on the result is the infinity.\<close>

lemma rnd_overflow: "overflow_threshold \<le> r \<Longrightarrow> rnd r = PInf"
proof -
  assume r: "overflow_threshold \<le> r"
  then have pos: "0 < r" using threshold_pos by linarith
  have "(2::real) powi 1023 \<le> overflow_threshold"
    by (rule less_imp_le, rule pow2_less_threshold) simp
  with r pos have k: "expo r = 1023" by (intro expo_eqI) auto
  have t: "overflow_threshold = 2 powi (1023 - 52) * 2 ^ 53"
    unfolding overflow_threshold_def using pow2_split1[of 1023] by simp
  have "of_int (2 ^ 53) \<le> r / 2 powi (1023 - 52)"
    using r by (simp add: pos_le_divide_eq t mult.commute del: power_int_numeral)
  from round_even_ge[OF this] have "2 ^ 53 \<le> round_even (r / 2 powi (1023 - 52))" .
  then have "(2::real) ^ 53 \<le> of_int (round_even (r / 2 powi (1023 - 52)))"
    by (metis of_int_le_iff of_int_numeral of_int_power)
  then have "overflow_threshold \<le> of_int (round_even (r / 2 powi (1023 - 52))) * 2 powi (1023 - 52)"
    unfolding t by (simp add: mult.commute del: power_int_numeral)
  then show ?thesis using pos by (simp add: rnd_def Let_def k del: power_int_numeral)
qed

text \<open>The rounded value of a number whose binade and rounded quotient are known.\<close>

lemma rnd_eval:
  assumes "- 1022 \<le> k" "k \<le> 1022"
    and "- 1022 < k \<Longrightarrow> 2 powi k \<le> \<bar>r\<bar>" and "\<bar>r\<bar> < 2 powi (k + 1)"
    and "round_even (r / 2 powi (k - 52)) = n"
  shows "rnd r = Fin (of_int n * 2 powi (k - 52))"
proof -
  let ?u = "(2::real) powi (k - 52)"
  have k: "expo r = k" using assms(1-4) by (intro expo_eqI) auto
  have u: "0 < ?u" by simp
  have "\<bar>r / ?u\<bar> < 2 ^ 53"
    using assms(4) u by (simp add: pos_divide_less_eq pow2_split1[of k] mult.commute)
  then have q: "- (2 ^ 53) < r / ?u" "r / ?u < 2 ^ 53"
    by linarith+
  have lo: "of_int (- (2 ^ 53)) \<le> r / ?u" using q(1) by simp
  have hi: "r / ?u \<le> of_int (2 ^ 53)" using q(2) by simp
  have "(2::real) powi (k + 1) < overflow_threshold"
    using assms(2) by (intro pow2_less_threshold) simp
  then have b: "- overflow_threshold < of_int (- (2 ^ 53)) * ?u"
     "of_int (2 ^ 53) * ?u < overflow_threshold"
    by (simp_all add: pow2_split1[of k] mult.commute)
  from rnd_core[OF k lo hi b] assms(5) show ?thesis by auto
qed


section \<open>Doubles that are exact\<close>

lemma rnd_dyadic:
  assumes m: "\<bar>m\<bar> < 2 ^ 53" and j: "- 1074 \<le> j" "j \<le> 970"
  shows "rnd (of_int m * 2 powi j) = Fin (of_int m * 2 powi j)"
proof -
  define r where "r = real_of_int m * 2 powi j"
  define k where "k = expo r"
  define u where "u = (2::real) powi (k - 52)"
  have pj: "0 < (2::real) powi j" by simp
  have "real_of_int \<bar>m\<bar> < 2 ^ 53" using m by (metis of_int_less_iff of_int_numeral of_int_power)
  then have "\<bar>r\<bar> < 2 ^ 53 * 2 powi j" using pj by (simp add: r_def abs_mult)
  also have "\<dots> = 2 powi (53 + j)" using power_int_add[of "2::real" 53 j] by simp
  finally have rb: "\<bar>r\<bar> < 2 powi (53 + j)" .
  have kj: "k - 52 \<le> j"
  proof (cases "- 1022 < k")
    case True
    then have "2 powi k \<le> \<bar>r\<bar>" unfolding k_def by (rule expo_props(3))
    with rb have lt: "(2::real) powi k < 2 powi (53 + j)" by linarith
    have "k < 53 + j"
    proof (rule ccontr)
      assume "\<not> k < 53 + j"
      then have "(2::real) powi (53 + j) \<le> 2 powi k" by (intro power_int_increasing) auto
      with lt show False by simp
    qed
    then show ?thesis by simp
  next
    case False
    with expo_props(1)[of r] have "k = - 1022" by (simp add: k_def)
    with j(1) show ?thesis by simp
  qed
  define d where "d = nat (j - (k - 52))"
  have "(2::real) powi j = 2 powi ((k - 52) + int d)" using kj by (simp add: d_def)
  also have "\<dots> = u * 2 ^ d" unfolding u_def by (subst power_int_add) simp_all
  finally have pd: "(2::real) powi j = u * 2 ^ d" .
  have upos: "0 < u" by (simp add: u_def)
  have rd: "r = real_of_int (m * 2 ^ d) * u" by (simp add: r_def pd)
  then have "r / u = of_int (m * 2 ^ d)" using upos by simp
  then have n: "round_even (r / u) = m * 2 ^ d" by (simp only: round_even_of_int)
  have "(2::real) powi (53 + j) < overflow_threshold" using j(2) by (intro pow2_less_threshold) simp
  with rb have "\<not> overflow_threshold \<le> \<bar>r\<bar>" by linarith
  then have "rnd r = Fin r"
    unfolding rnd_def Let_def k_def[symmetric] u_def[symmetric] n rd[symmetric] by simp
  then show ?thesis by (simp add: r_def)
qed

lemma is_double_dyadic:
  "\<bar>m\<bar> < 2 ^ 53 \<Longrightarrow> - 1074 \<le> j \<Longrightarrow> j \<le> 970 \<Longrightarrow> is_double (of_int m * 2 powi j)"
  by (simp add: is_double_def rnd_dyadic)

lemma rnd_numeral [simp]: "numeral w < (2::int) ^ 53 \<Longrightarrow> rnd (numeral w) = Fin (numeral w)"
  using rnd_dyadic[of "numeral w" 0] by simp

lemma rnd_neg_numeral [simp]:
  "numeral w < (2::int) ^ 53 \<Longrightarrow> rnd (- numeral w) = Fin (- numeral w)"
  using rnd_dyadic[of "- numeral w" 0] by simp

lemma rnd_1 [simp]: "rnd 1 = Fin 1"
  using rnd_dyadic[of 1 0] by simp

lemma rnd_m1 [simp]: "rnd (- 1) = Fin (- 1)"
  using rnd_dyadic[of "- 1" 0] by simp

lemma rnd_half [simp]: "rnd (1 / 2) = Fin (1 / 2)"
  using rnd_dyadic[of 1 "- 1"] by simp

lemma rnd_m3half [simp]: "rnd (- (3 / 2)) = Fin (- (3 / 2))"
  using rnd_dyadic[of "- 3" "- 1"] by simp

lemma d03_double: "is_double d03"
  using is_double_dyadic[of 5404319552844595 "- 54"] by (simp add: d03_def)

lemma d12_double: "is_double d12"
  using is_double_dyadic[of 5404319552844595 "- 52"] by (simp add: d12_def)

lemma d27_double: "is_double d27"
  using is_double_dyadic[of 3039929748475085 "- 50"] by (simp add: d27_def)

text \<open>\<open>-3 + d03\<close> rounds to \<open>-d27\<close>.\<close>

lemma rnd_m3_d03: "rnd (- 3 + d03) = Fin (- d27)"
proof -
  have r: "- 3 + d03 = - (48638875975601357 / 2 ^ 54)" by (simp add: d03_def)
  have "rnd (- (48638875975601357 / 2 ^ 54)) = Fin (of_int (- 6079859496950170) * 2 powi (1 - 52))"
  proof (rule rnd_eval)
    show "round_even (- (48638875975601357 / 2 ^ 54) / 2 powi (1 - 52)) = - 6079859496950170"
      by (rule round_even_near) simp
  qed simp_all
  then show ?thesis unfolding r by (simp add: d27_def)
qed

text \<open>\<open>-1.5 - d12\<close> is a tie and rounds to the even neighbour \<open>-d27\<close>.\<close>

lemma rnd_m15_d12: "rnd (- (3 / 2) + - d12) = Fin (- d27)"
proof -
  have r: "- (3 / 2) + - d12 = - (12159718993900339 / 2 ^ 52)" by (simp add: d12_def)
  have t: "round_even (- (of_int 6079859496950169 + 1 / 2)) = - 6079859496950170"
    unfolding round_even_minus by (subst round_even_tie[OF refl]) simp
  have "rnd (- (12159718993900339 / 2 ^ 52)) = Fin (of_int (- 6079859496950170) * 2 powi (1 - 52))"
  proof (rule rnd_eval)
    have "- (12159718993900339 / 2 ^ 52) / 2 powi (1 - 52) =
          - (real_of_int 6079859496950169 + 1 / 2)" by simp
    then show "round_even (- (12159718993900339 / 2 ^ 52) / 2 powi (1 - 52)) = - 6079859496950170"
      using t by (simp only:)
  qed simp_all
  then show ?thesis unfolding r by (simp add: d27_def)
qed

lemma rnd_m27_d12: "rnd (- d27 + d12) = Fin (- (6755399441055745 / 2 ^ 52))"
  using rnd_dyadic[of "- 6755399441055745" "- 52"] by (simp add: d27_def d12_def)

lemma rnd_last: "rnd (- (6755399441055745 / 2 ^ 52) + 3 / 2) = Fin (- (1 / 2 ^ 52))"
  using rnd_dyadic[of "- 1" "- 52"] by simp

lemma rnd_eps4: "rnd (- (1 / 2 ^ 52) / 4) = Fin (- (1 / 2 ^ 54))"
  using rnd_dyadic[of "- 1" "- 54"] by simp

section \<open>Arithmetic of the extended doubles\<close>

lemma fmul_NaN_right [simp]: "fmul a NaN = NaN"
  by (cases a) simp_all

lemma fadd_NaN_right [simp]: "fadd a NaN = NaN"
  by (cases a) simp_all

lemma fdiv_NaN_right [simp]: "fdiv a NaN = NaN"
  by (cases a) simp_all

lemma fless_NaN_right [simp]: "\<not> fless a NaN"
  by (cases a) simp_all

text \<open>A square root is a NaN, the positive infinity or a non-negative real.\<close>

lemma fsqrt_cases: "fsqrt a = NaN \<or> fsqrt a = PInf \<or> (\<exists>r\<ge>0. fsqrt a = Fin r)"
proof (cases a)
  case (Fin x)
  then show ?thesis using rnd_nonneg[of "sqrt x"] by auto
qed simp_all

lemma length_not_positive:
  "\<not> fless (Fin 0) (fsqrt a) \<Longrightarrow> fsqrt a \<noteq> Fin 0 \<Longrightarrow> fsqrt a = NaN"
  using fsqrt_cases[of a] by auto

lemma vdot_NaN_left: "vdot (MVector NaN NaN NaN) c = NaN"
  by (simp add: vdot_def)

lemma vdot_NaN_right: "vdot n (MVector NaN NaN NaN) = NaN"
  by (simp add: vdot_def)

text \<open>
  The guard of line 60 can be dropped from the test when the length is not zero: a length
  that is neither zero nor positive is a NaN, and so is the dot product then.
\<close>

lemma normal_points_inward_iff:
  "vlength n \<noteq> Fin 0 \<Longrightarrow>
     normal_points_inward n c = fless (vdot (vdiv n (vlength n)) c) (Fin 0)"
proof (cases "fless (Fin 0) (vlength n)")
  case True
  then show ?thesis by (simp add: normal_points_inward_def vnormal_def)
next
  case False
  assume "vlength n \<noteq> Fin 0"
  with False have "vlength n = NaN"
    unfolding vlength_def by (rule length_not_positive)
  then show ?thesis
    by (simp add: normal_points_inward_def vdiv_def vdot_NaN_left)
qed

lemma zero_length_not_inward: "vlength n = Fin 0 \<Longrightarrow> \<not> normal_points_inward n c"
  by (simp add: normal_points_inward_def)

lemma normal_points_inward_NaN: "\<not> normal_points_inward n (MVector NaN NaN NaN)"
  by (simp add: normal_points_inward_def vdot_NaN_right)

section \<open>One face\<close>

lemma sum_center_valid:
  "\<forall>v\<in>set vs. v < length pts \<Longrightarrow>
     sum_center pts vs c = Inr (foldl vadd c (map (\<lambda>v. pts ! v) vs))"
  by (induction vs arbitrary: c) simp_all

lemma sum_center_Inr_valid:
  "sum_center pts vs c = Inr r \<Longrightarrow> \<forall>v\<in>set vs. v < length pts"
  by (induction vs arbitrary: c) (auto split: if_splits)

lemma face_center_Inr:
  assumes "face_center pts f = Inr c"
  shows "(\<forall>v\<in>set f. v < length pts) \<and> c = computed_center pts f"
proof -
  from assms obtain c0 where c0: "sum_center pts f vzero = Inr c0"
    by (auto simp: face_center_def split: sum.splits)
  from sum_center_Inr_valid[OF c0] have v: "\<forall>v\<in>set f. v < length pts" .
  from sum_center_valid[OF v, of vzero] assms show ?thesis
    using v by (simp add: face_center_def computed_center_def)
qed

lemma face_center_valid:
  "\<forall>v\<in>set f. v < length pts \<Longrightarrow> face_center pts f = Inr (computed_center pts f)"
  by (simp add: face_center_def computed_center_def sum_center_valid)

lemma is_flipped_Inr:
  "is_flipped pts f n = Inr b \<Longrightarrow>
     (\<forall>v\<in>set f. v < length pts) \<and> b = normal_points_inward n (computed_center pts f)"
  by (auto simp: is_flipped_def split: sum.splits dest: face_center_Inr)

lemma is_flipped_valid:
  "\<forall>v\<in>set f. v < length pts \<Longrightarrow>
     is_flipped pts f n = Inr (normal_points_inward n (computed_center pts f))"
  by (simp add: is_flipped_def face_center_valid)

text \<open>The centre of a face without vertices is \<open>0.0 / 0\<close> in every component.\<close>

lemma computed_center_empty: "computed_center pts [] = MVector NaN NaN NaN"
  by (simp add: computed_center_def vzero_def vdiv_def inf_of_sign_def)

section \<open>The loop over the faces\<close>

lemma face_step_Inr:
  "face_step i s = Inr s' \<Longrightarrow>
     mesh_fn s' = mesh_fn s \<and>
     flipped_faces s' = flipped_faces s @ (if flags_face (mesh_fn s) i then [i] else [])"
  by (auto simp: face_step_def flags_face_def Let_def split: sum.splits bool.splits if_splits)

lemma face_step_Inl: "face_step i s = Inl (e, s') \<Longrightarrow> s' = s"
  by (auto simp: face_step_def Let_def split: sum.splits bool.splits if_splits)

lemma face_step_Inr_ok:
  "face_step i s = Inr s' \<Longrightarrow>
     i < length (normals (mesh_fn s)) \<and> i < length (faces (mesh_fn s)) \<and>
     (\<exists>b. is_flipped (vertices (mesh_fn s)) (faces (mesh_fn s) ! i) (normals (mesh_fn s) ! i) = Inr b)"
  by (auto simp: face_step_def Let_def split: sum.splits bool.splits if_splits)

lemma face_step_succeeds:
  assumes "i < length (normals (mesh_fn s))" and "i < length (faces (mesh_fn s))"
    and "\<forall>v\<in>set (faces (mesh_fn s) ! i). v < length (vertices (mesh_fn s))"
  shows "\<exists>s'. face_step i s = Inr s'"
  using assms is_flipped_valid[OF assms(3), of "normals (mesh_fn s) ! i"]
  by (simp add: face_step_def Let_def split: bool.splits)

text \<open>A loop that returns has appended, in order, the faces that pass the test.\<close>

lemma face_loop_Inr:
  "face_loop ids s = Inr s' \<Longrightarrow>
     mesh_fn s' = mesh_fn s \<and>
     flipped_faces s' = flipped_faces s @ filter (flags_face (mesh_fn s)) ids"
proof (induction ids arbitrary: s)
  case Nil
  then show ?case by simp
next
  case (Cons i ids)
  from Cons.prems obtain s1 where s1: "face_step i s = Inr s1" and l: "face_loop ids s1 = Inr s'"
    by (auto split: sum.splits)
  from face_step_Inr[OF s1] Cons.IH[OF l] show ?case by simp
qed

text \<open>Returning or raising, the loop has appended the flagged faces of a prefix.\<close>

lemma face_loop_final:
  "\<exists>k. mesh_fn (final_state (face_loop ids s)) = mesh_fn s \<and>
       flipped_faces (final_state (face_loop ids s)) =
         flipped_faces s @ filter (flags_face (mesh_fn s)) (take k ids)"
proof (induction ids arbitrary: s)
  case Nil
  then show ?case by (simp add: final_state_def)
next
  case (Cons i ids)
  show ?case
  proof (cases "face_step i s")
    case (Inl p)
    then obtain e s0 where p: "p = (e, s0)" by (cases p)
    with Inl face_step_Inl have "s0 = s" by blast
    with Inl p have "final_state (face_loop (i # ids) s) = s"
      by (simp add: final_state_def)
    then have "mesh_fn (final_state (face_loop (i # ids) s)) = mesh_fn s \<and>
       flipped_faces (final_state (face_loop (i # ids) s)) =
         flipped_faces s @ filter (flags_face (mesh_fn s)) (take 0 (i # ids))" by simp
    then show ?thesis by blast
  next
    case (Inr s1)
    from Cons.IH[of s1] obtain k where
      k: "mesh_fn (final_state (face_loop ids s1)) = mesh_fn s1"
         "flipped_faces (final_state (face_loop ids s1)) =
            flipped_faces s1 @ filter (flags_face (mesh_fn s1)) (take k ids)" by blast
    from face_step_Inr[OF Inr] k Inr
    have "mesh_fn (final_state (face_loop (i # ids) s)) = mesh_fn s \<and>
       flipped_faces (final_state (face_loop (i # ids) s)) =
         flipped_faces s @ filter (flags_face (mesh_fn s)) (take (Suc k) (i # ids))" by simp
    then show ?thesis by blast
  qed
qed

lemma face_loop_Inr_ok:
  "face_loop ids s = Inr s' \<Longrightarrow> i \<in> set ids \<Longrightarrow>
     i < length (normals (mesh_fn s)) \<and> i < length (faces (mesh_fn s)) \<and>
     (\<exists>b. is_flipped (vertices (mesh_fn s)) (faces (mesh_fn s) ! i) (normals (mesh_fn s) ! i) = Inr b)"
proof (induction ids arbitrary: s)
  case Nil
  then show ?case by simp
next
  case (Cons j ids)
  from Cons.prems(1) obtain s1 where s1: "face_step j s = Inr s1" and l: "face_loop ids s1 = Inr s'"
    by (auto split: sum.splits)
  from face_step_Inr[OF s1] have m: "mesh_fn s1 = mesh_fn s" by simp
  show ?case
  proof (cases "i = j")
    case True
    with face_step_Inr_ok[OF s1] show ?thesis by simp
  next
    case False
    with Cons.prems(2) have "i \<in> set ids" by simp
    from Cons.IH[OF l this] m show ?thesis by simp
  qed
qed

lemma face_loop_succeeds:
  assumes "\<forall>i\<in>set ids. i < length (normals (mesh_fn s)) \<and> i < length (faces (mesh_fn s)) \<and>
             (\<forall>v\<in>set (faces (mesh_fn s) ! i). v < length (vertices (mesh_fn s)))"
  shows "\<exists>s'. face_loop ids s = Inr s'"
  using assms
proof (induction ids arbitrary: s)
  case Nil
  then show ?case by simp
next
  case (Cons i ids)
  from Cons.prems face_step_succeeds[of i s] obtain s1 where s1: "face_step i s = Inr s1"
    by auto
  from face_step_Inr[OF s1] have m: "mesh_fn s1 = mesh_fn s" by simp
  from Cons.prems m have "\<exists>s'. face_loop ids s1 = Inr s'"
    by (intro Cons.IH) simp
  with s1 show ?case by simp
qed

lemma fix_flipped_normals_mesh: "mesh_fn (final_state (fix_flipped_normals s)) = mesh_fn s"
  using face_loop_final[of "[0 ..< length (faces (mesh_fn s))]" "s\<lparr>flipped_faces := []\<rparr>"]
  by (auto simp: fix_flipped_normals_def)

lemma fix_flipped_normals_cong: "mesh_fn s = mesh_fn (t::state) \<Longrightarrow> fix_flipped_normals s = fix_flipped_normals t"
  by (cases s, cases t) (simp add: fix_flipped_normals_def)

lemma classify_Inr:
  assumes "classify pts fs ns = Inr ids"
  shows "ids = filter (\<lambda>i. is_flipped pts (fs ! i) (ns ! i) = Inr True) [0 ..< length fs]"
    and "i < length fs \<Longrightarrow> i < length ns \<and> (\<exists>b. is_flipped pts (fs ! i) (ns ! i) = Inr b)"
proof -
  let ?m = "\<lparr>vertices = pts, faces = fs, normals = ns\<rparr>"
  let ?s = "\<lparr>mesh_fn = ?m, flipped_faces = []\<rparr>"
  from assms obtain s' where s': "face_loop [0 ..< length fs] ?s = Inr s'"
    and ids: "ids = flipped_faces s'"
    by (auto simp: classify_def fix_flipped_normals_def split: sum.splits prod.splits)
  from face_loop_Inr[OF s'] ids
  show "ids = filter (\<lambda>i. is_flipped pts (fs ! i) (ns ! i) = Inr True) [0 ..< length fs]"
    by (simp add: flags_face_def[abs_def])
  show "i < length fs \<Longrightarrow> i < length ns \<and> (\<exists>b. is_flipped pts (fs ! i) (ns ! i) = Inr b)"
    using face_loop_Inr_ok[OF s', of i] by simp
qed

lemma classify_member:
  assumes "classify pts fs ns = Inr ids" and "i < length fs"
  shows "i \<in> set ids \<longleftrightarrow> normal_points_inward (ns ! i) (computed_center pts (fs ! i))"
proof -
  from classify_Inr(2)[OF assms] obtain b where b: "is_flipped pts (fs ! i) (ns ! i) = Inr b"
    by blast
  from is_flipped_Inr[OF b] have "b = normal_points_inward (ns ! i) (computed_center pts (fs ! i))"
    by simp
  with b classify_Inr(1)[OF assms(1)] assms(2) show ?thesis by auto
qed

text \<open>Two meshes whose normals pass the test alike: the two runs go in step.\<close>

lemma is_flipped_alike:
  "\<forall>c. normal_points_inward n' c = normal_points_inward n c \<Longrightarrow>
     is_flipped pts f n' = is_flipped pts f n"
  by (auto simp: is_flipped_def split: sum.splits)

lemma face_step_alike:
  assumes r: "alike_state s s'"
  shows "case face_step i s of
           Inl (e, t) \<Rightarrow> (\<exists>t'. face_step i s' = Inl (e, t'))
         | Inr t \<Rightarrow> (\<exists>t'. face_step i s' = Inr t' \<and> alike_state t t')"
proof (cases "i < length (normals (mesh_fn s)) \<and> i < length (faces (mesh_fn s))")
  case False
  with r show ?thesis
    by (auto simp: face_step_def alike_state_def)
next
  case True
  with r have n: "\<forall>c. normal_points_inward (normals (mesh_fn s') ! i) c =
      normal_points_inward (normals (mesh_fn s) ! i) c"
    by (simp add: alike_state_def)
  have "is_flipped (vertices (mesh_fn s')) (faces (mesh_fn s') ! i) (normals (mesh_fn s') ! i) =
        is_flipped (vertices (mesh_fn s)) (faces (mesh_fn s) ! i) (normals (mesh_fn s) ! i)"
    using r is_flipped_alike[OF n] by (simp add: alike_state_def)
  with True r show ?thesis
    by (auto simp: face_step_def alike_state_def Let_def split: sum.splits bool.splits)
qed

lemma face_loop_alike:
  "alike_state s s' \<Longrightarrow>
     map_sum fst flipped_faces (face_loop ids s') = map_sum fst flipped_faces (face_loop ids s)"
proof (induction ids arbitrary: s s')
  case Nil
  then show ?case by (simp add: alike_state_def)
next
  case (Cons i ids)
  show ?case
  proof (cases "face_step i s")
    case (Inl p)
    with face_step_alike[OF Cons.prems, of i] show ?thesis
      by (auto split: prod.splits)
  next
    case (Inr t)
    with face_step_alike[OF Cons.prems, of i] obtain t'
      where t': "face_step i s' = Inr t'" "alike_state t t'" by auto
    from Cons.IH[OF t'(2)] Inr t'(1) show ?thesis by simp
  qed
qed

lemma classify_map_sum:
  "classify pts fs ns =
     map_sum fst flipped_faces
       (face_loop [0 ..< length fs]
          \<lparr>mesh_fn = \<lparr>vertices = pts, faces = fs, normals = ns\<rparr>, flipped_faces = []\<rparr>)"
  by (simp add: classify_def fix_flipped_normals_def split: sum.splits prod.splits)


section \<open>The scenarios\<close>

lemma rnd_third: "\<exists>c. rnd (1 / 3) = Fin c \<and> 1 / 4 \<le> c \<and> c \<le> 1 / 2"
  using rnd_range_pos[of "- 2" "1 / 3" "- 1"] by simp

lemma sqrt3_bounds: "1 \<le> sqrt 3" "sqrt 3 \<le> 2"
  by (simp_all add: real_le_lsqrt)

lemma rnd_sqrt3: "\<exists>s. rnd (sqrt 3) = Fin s \<and> 1 \<le> s \<and> s \<le> 2"
  using rnd_range_pos[of 0 "sqrt 3" 1] sqrt3_bounds by simp

lemma rnd_inv_neg:
  assumes "1 \<le> s" "s \<le> 2"
  shows "\<exists>t. rnd (- 1 / s) = Fin t \<and> - 1 \<le> t \<and> t \<le> - (1 / 2)"
proof -
  from assms have "1 / 2 \<le> 1 / s" "1 / s \<le> 1" by (simp_all add: field_simps)
  then have "- (2 powi 0) \<le> - 1 / s" "- 1 / s \<le> - (2 powi (- 1))" by simp_all
  from rnd_range_neg[OF this] show ?thesis by simp
qed

lemma rnd_inv_pos:
  assumes "1 \<le> s" "s \<le> 2"
  shows "\<exists>t. rnd (1 / s) = Fin t \<and> 1 / 2 \<le> t \<and> t \<le> 1"
proof -
  from assms have "1 / 2 \<le> 1 / s" "1 / s \<le> 1" by (simp_all add: field_simps)
  then have "2 powi (- 1) \<le> 1 / s" "1 / s \<le> 2 powi 0" by simp_all
  from rnd_range_pos[OF this] show ?thesis by simp
qed

lemma dot_pos_sign:
  assumes c: "1 / 4 \<le> c" "c \<le> 1 / 2" and t: "1 / 2 \<le> t" "t \<le> 1"
  shows "\<exists>d. vdot (MVector (Fin t) (Fin t) (Fin t)) (MVector (Fin c) (Fin c) (Fin c)) = Fin d \<and>
             0 < d"
proof -
  have "1 / 2 * (1 / 4) \<le> t * c" using c t by (intro mult_mono) auto
  moreover have "t * c \<le> 1 * (1 / 2)" using c t by (intro mult_mono) auto
  ultimately have "2 powi (- 3) \<le> t * c" "t * c \<le> 2 powi (- 1)" by simp_all
  from rnd_range_pos[OF this] obtain p where
    p: "rnd (t * c) = Fin p" "1 / 8 \<le> p" "p \<le> 1 / 2" by auto
  then have "2 powi (- 2) \<le> p + p" "p + p \<le> 2 powi 0" by simp_all
  from rnd_range_pos[OF this] obtain q where
    q: "rnd (p + p) = Fin q" "1 / 4 \<le> q" "q \<le> 1" by auto
  with p have "2 powi (- 2) \<le> q + p" "q + p \<le> 2 powi 1" by simp_all
  from rnd_range_pos[OF this] obtain d where
    d: "rnd (q + p) = Fin d" "1 / 4 \<le> d" by auto
  from p(1) q(1) d show ?thesis by (simp add: vdot_def)
qed

lemma dot_neg_sign:
  assumes c: "1 / 4 \<le> c" "c \<le> 1 / 2" and t: "- 1 \<le> t" "t \<le> - (1 / 2)"
  shows "\<exists>d. vdot (MVector (Fin t) (Fin t) (Fin t)) (MVector (Fin c) (Fin c) (Fin c)) = Fin d \<and>
             d < 0"
proof -
  have "1 / 2 * (1 / 4) \<le> (- t) * c" using c t by (intro mult_mono) auto
  moreover have "(- t) * c \<le> 1 * (1 / 2)" using c t by (intro mult_mono) auto
  ultimately have "- (2 powi (- 1)) \<le> t * c" "t * c \<le> - (2 powi (- 3))" by simp_all
  from rnd_range_neg[OF this] obtain p where
    p: "rnd (t * c) = Fin p" "- (1 / 2) \<le> p" "p \<le> - (1 / 8)" by auto
  then have "- (2 powi 0) \<le> p + p" "p + p \<le> - (2 powi (- 2))" by simp_all
  from rnd_range_neg[OF this] obtain q where
    q: "rnd (p + p) = Fin q" "- 1 \<le> q" "q \<le> - (1 / 4)" by auto
  with p have "- (2 powi 1) \<le> q + p" "q + p \<le> - (2 powi (- 2))" by simp_all
  from rnd_range_neg[OF this] obtain d where
    d: "rnd (q + p) = Fin d" "d \<le> - (1 / 4)" by auto
  from p(1) q(1) d show ?thesis by (simp add: vdot_def)
qed

lemma tri_center:
  "computed_center tri_pts [0, Suc 0, 2] = MVector (rnd (1 / 3)) (rnd (1 / 3)) (rnd (1 / 3))"
  by (simp add: computed_center_def tri_pts_def vzero_def vadd_def vdiv_def)

lemma vlength_n_in: "vlength n_in = rnd (sqrt 3)"
  by (simp add: n_in_def vlength_def vdot_def)

lemma vlength_n_out: "vlength n_out = rnd (sqrt 3)"
  by (simp add: n_out_def vlength_def vdot_def)

lemma vlength_vzero: "vlength vzero = Fin 0"
  by (simp add: vzero_def vlength_def vdot_def)

lemma tri_valid: "\<forall>v\<in>set [0, Suc 0, 2]. v < length tri_pts"
  by (simp add: tri_pts_def)

lemma tri_inward_in: "normal_points_inward n_in (computed_center tri_pts [0, Suc 0, 2])"
proof -
  from rnd_third obtain c where c: "rnd (1 / 3) = Fin c" "1 / 4 \<le> c" "c \<le> 1 / 2" by blast
  from rnd_sqrt3 obtain s where s: "rnd (sqrt 3) = Fin s" "1 \<le> s" "s \<le> 2" by blast
  from rnd_inv_neg[OF s(2,3)] obtain t where
    t: "rnd (- 1 / s) = Fin t" "- 1 \<le> t" "t \<le> - (1 / 2)" by blast
  have "vnormal n_in = vdiv n_in (Fin s)" by (simp add: vnormal_def vlength_n_in s(1))
  then have n: "vnormal n_in = MVector (Fin t) (Fin t) (Fin t)"
    using s t(1) by (simp add: vdiv_def n_in_def)
  from dot_neg_sign[OF c(2,3) t(2,3)] obtain d where
    "vdot (MVector (Fin t) (Fin t) (Fin t)) (MVector (Fin c) (Fin c) (Fin c)) = Fin d" "d < 0"
    by blast
  then show ?thesis
    using s by (simp add: normal_points_inward_def vlength_n_in n tri_center c(1))
qed

lemma tri_inward_out: "\<not> normal_points_inward n_out (computed_center tri_pts [0, Suc 0, 2])"
proof -
  from rnd_third obtain c where c: "rnd (1 / 3) = Fin c" "1 / 4 \<le> c" "c \<le> 1 / 2" by blast
  from rnd_sqrt3 obtain s where s: "rnd (sqrt 3) = Fin s" "1 \<le> s" "s \<le> 2" by blast
  from rnd_inv_pos[OF s(2,3)] obtain t where
    t: "rnd (1 / s) = Fin t" "1 / 2 \<le> t" "t \<le> 1" by blast
  have "vnormal n_out = vdiv n_out (Fin s)" by (simp add: vnormal_def vlength_n_out s(1))
  then have n: "vnormal n_out = MVector (Fin t) (Fin t) (Fin t)"
    using s t(1) by (simp add: vdiv_def n_out_def)
  from dot_pos_sign[OF c(2,3) t(2,3)] obtain d where
    "vdot (MVector (Fin t) (Fin t) (Fin t)) (MVector (Fin c) (Fin c) (Fin c)) = Fin d" "0 < d"
    by blast
  then show ?thesis
    using s by (simp add: normal_points_inward_def vlength_n_out n tri_center c(1))
qed

lemma tri_flipped_in: "is_flipped tri_pts [0, Suc 0, 2] n_in = Inr True"
  by (simp add: is_flipped_valid[OF tri_valid] tri_inward_in)

lemma tri_flipped_out: "is_flipped tri_pts [0, Suc 0, 2] n_out = Inr False"
  by (simp add: is_flipped_valid[OF tri_valid] tri_inward_out)

lemma tri_flipped_zero: "is_flipped tri_pts [0, Suc 0, 2] vzero = Inr False"
  by (simp add: is_flipped_valid[OF tri_valid] normal_points_inward_def vlength_vzero)

lemma is_flipped_empty: "is_flipped pts [] n = Inr False"
  using is_flipped_valid[of "[]" pts n]
  by (simp add: computed_center_empty normal_points_inward_NaN)

lemma two_triangles:
  "classify tri_pts [[0, 1, 2], [0, 1, 2]] [n_in, n_out] = Inr [0]"
  by (simp add: classify_def fix_flipped_normals_def face_step_def tri_flipped_in tri_flipped_out)

lemma three_triangles:
  "classify tri_pts [[0, 1, 2], [0, 1, 2], [0, 1, 2]] [n_in, n_out, n_in] = Inr [0, 2]"
  by (simp add: classify_def fix_flipped_normals_def face_step_def tri_flipped_in tri_flipped_out)

lemma degenerate_faces:
  "classify tri_pts [[0, 1, 2], [], [0, 1, 2]] [n_in, n_in, vzero] = Inr [0]"
  by (simp add: classify_def fix_flipped_normals_def face_step_def tri_flipped_in tri_flipped_zero
        is_flipped_empty)

lemma quad_center: "computed_center quad_pts [0, Suc 0, 2, 3] = MVector (Fin 1) (Fin 1) (Fin 0)"
  by (simp add: computed_center_def quad_pts_def vzero_def vadd_def vdiv_def)

lemma quad_dot: "computed_dot quad_pts [0, Suc 0, 2, 3] (MVector (Fin 0) (Fin 0) (Fin 1)) = Fin 0"
  by (simp add: computed_dot_def quad_center vlength_def vdiv_def vdot_def)

lemma quad_valid: "\<forall>v\<in>set [0, Suc 0, 2, 3]. v < length quad_pts"
  by (simp add: quad_pts_def)

lemma quad_flipped: "is_flipped quad_pts [0, Suc 0, 2, 3] (MVector (Fin 0) (Fin 0) (Fin 1)) = Inr False"
  using quad_dot
  by (simp add: is_flipped_valid[OF quad_valid] normal_points_inward_def vnormal_def computed_dot_def)

lemma quad_classified:
  "classify quad_pts [[0, 1, 2, 3]] [MVector (Fin 0) (Fin 0) (Fin 1)] = Inr []"
  by (simp add: classify_def fix_flipped_normals_def face_step_def quad_flipped)

lemma tri_exact_in: "exact_dot tri_pts [0, 1, 2] n_in = - 1 / sqrt 3"
  by (simp add: exact_dot_def exact_center_def tri_pts_def n_in_def)

lemma tri_exact_out: "exact_dot tri_pts [0, 1, 2] n_out = 1 / sqrt 3"
  by (simp add: exact_dot_def exact_center_def tri_pts_def n_out_def)

section \<open>Inputs on which rounding decides\<close>

lemma rnd_eps: "rnd (- (1 / 2 ^ 54)) = Fin (- (1 / 2 ^ 54))"
  using rnd_dyadic[of "- 1" "- 54"] by simp

lemma round_tri_valid: "\<forall>v\<in>set [0, Suc 0, 2]. v < length round_tri"
  by (simp add: round_tri_def)

lemma round_tri_center:
  "computed_center round_tri [0, Suc 0, 2] = MVector (Fin 0) (rnd (1 / 3)) (rnd (1 / 3))"
proof -
  have s1: "vadd vzero (round_tri ! 0) = MVector (Fin (- 3)) (Fin 0) (Fin 0)"
    by (simp add: vadd_def vzero_def round_tri_def)
  have s2: "vadd (MVector (Fin (- 3)) (Fin 0) (Fin 0)) (round_tri ! Suc 0) =
            MVector (Fin (- d27)) (Fin 1) (Fin 0)"
    using rnd_m3_d03 by (simp add: vadd_def round_tri_def)
  have s3: "vadd (MVector (Fin (- d27)) (Fin 1) (Fin 0)) (round_tri ! 2) =
            MVector (Fin 0) (Fin 1) (Fin 1)"
    by (simp add: vadd_def round_tri_def)
  show ?thesis
    by (simp add: computed_center_def s1 s2 s3 vdiv_def)
qed

lemma unit_x_neg:
  "vlength (MVector (Fin (- 1)) (Fin 0) (Fin 0)) = Fin 1"
  "vnormal (MVector (Fin (- 1)) (Fin 0) (Fin 0)) = MVector (Fin (- 1)) (Fin 0) (Fin 0)"
  by (simp_all add: vnormal_def vlength_def vdot_def vdiv_def)

lemma unit_x_pos:
  "vlength (MVector (Fin 1) (Fin 0) (Fin 0)) = Fin 1"
  "vnormal (MVector (Fin 1) (Fin 0) (Fin 0)) = MVector (Fin 1) (Fin 0) (Fin 0)"
  by (simp_all add: vnormal_def vlength_def vdot_def vdiv_def)

lemma round_tri_not_flipped:
  "is_flipped round_tri [0, Suc 0, 2] (MVector (Fin (- 1)) (Fin 0) (Fin 0)) = Inr False"
proof -
  from rnd_third obtain c where c: "rnd (1 / 3) = Fin c" by blast
  show ?thesis
    by (simp add: is_flipped_valid[OF round_tri_valid] normal_points_inward_def unit_x_neg
          round_tri_center c vdot_def)
qed

lemma round_tri_classified:
  "classify round_tri [[0, 1, 2]] [MVector (Fin (- 1)) (Fin 0) (Fin 0)] = Inr []"
  by (simp add: classify_def fix_flipped_normals_def face_step_def round_tri_not_flipped)

lemma round_tri_exact:
  "exact_dot round_tri [0, 1, 2] (MVector (Fin (- 1)) (Fin 0) (Fin 0)) = - (1 / 2 ^ 54)"
  by (simp add: exact_dot_def exact_center_def round_tri_def d03_def d27_def)

lemma round_quad_valid: "\<forall>v\<in>set [0, Suc 0, 2, 3]. v < length round_quad"
  by (simp add: round_quad_def)

lemma round_quad_center:
  "computed_center round_quad [0, Suc 0, 2, 3] =
     MVector (Fin (- (1 / 2 ^ 54))) (Fin (1 / 2)) (Fin (1 / 2))"
proof -
  have s1: "vadd vzero (round_quad ! 0) = MVector (Fin (- (3 / 2))) (Fin 0) (Fin 0)"
    by (simp add: vadd_def vzero_def round_quad_def)
  have s2: "vadd (MVector (Fin (- (3 / 2))) (Fin 0) (Fin 0)) (round_quad ! Suc 0) =
            MVector (Fin (- d27)) (Fin 1) (Fin 0)"
    using rnd_m15_d12 by (simp add: vadd_def round_quad_def)
  have s3: "vadd (MVector (Fin (- d27)) (Fin 1) (Fin 0)) (round_quad ! 2) =
            MVector (Fin (- (6755399441055745 / 4503599627370496))) (Fin 2) (Fin 1)"
    using rnd_m27_d12 by (simp add: vadd_def round_quad_def)
  have s4: "vadd (MVector (Fin (- (6755399441055745 / 4503599627370496))) (Fin 2) (Fin 1)) (round_quad ! 3) =
            MVector (Fin (- (1 / 4503599627370496))) (Fin 2) (Fin 2)"
    using rnd_last by (simp add: vadd_def round_quad_def)
  have d: "vdiv (MVector (Fin (- (1 / 4503599627370496))) (Fin 2) (Fin 2)) (Fin 4) =
           MVector (Fin (- (1 / 2 ^ 54))) (Fin (1 / 2)) (Fin (1 / 2))"
    using rnd_eps4 by (simp add: vdiv_def)
  show ?thesis
    using d by (simp add: computed_center_def s1 s2 s3 s4)
qed

lemma round_quad_dot:
  "computed_dot round_quad [0, Suc 0, 2, 3] (MVector (Fin 1) (Fin 0) (Fin 0)) = Fin (- (1 / 2 ^ 54))"
  using rnd_eps unit_x_pos(2)
  by (simp add: computed_dot_def round_quad_center unit_x_pos(1) vnormal_def vdot_def)

lemma round_quad_flipped:
  "is_flipped round_quad [0, Suc 0, 2, 3] (MVector (Fin 1) (Fin 0) (Fin 0)) = Inr True"
  using round_quad_dot
  by (simp add: is_flipped_valid[OF round_quad_valid] normal_points_inward_def unit_x_pos(1)
        vnormal_def computed_dot_def)

lemma round_quad_classified:
  "classify round_quad [[0, 1, 2, 3]] [MVector (Fin 1) (Fin 0) (Fin 0)] = Inr [0]"
  by (simp add: classify_def fix_flipped_normals_def face_step_def round_quad_flipped)

lemma round_quad_exact:
  "exact_dot round_quad [0, 1, 2, 3] (MVector (Fin 1) (Fin 0) (Fin 0)) = 0"
  by (simp add: exact_dot_def exact_center_def round_quad_def)

lemma huge_pos: "0 < huge"
  by (simp add: huge_def)

lemma huge_double: "is_double huge"
  using is_double_dyadic[of 1 600] by (simp add: huge_def)

lemma huge_square: "rnd (huge * huge) = PInf"
proof (rule rnd_overflow)
  have "huge * huge = 2 powi 1200" unfolding huge_def
    using power_int_add[of "2::real" 600 600] by simp
  moreover have "(2::real) powi 1024 \<le> 2 powi 1200" by (rule power_int_increasing) simp_all
  ultimately show "overflow_threshold \<le> huge * huge" by (simp add: overflow_threshold_def)
qed

lemma vlength_huge: "vlength (vscale huge n_in) = PInf"
  using huge_square by (simp add: vlength_def vdot_def vscale_def n_in_def)

lemma tri_huge_not_flipped: "is_flipped tri_pts [0, Suc 0, 2] (vscale huge n_in) = Inr False"
proof -
  from rnd_third obtain c where c: "rnd (1 / 3) = Fin c" by blast
  have n: "vnormal (vscale huge n_in) = MVector (Fin 0) (Fin 0) (Fin 0)"
    by (simp add: vnormal_def vlength_huge) (simp add: vdiv_def vscale_def n_in_def)
  show ?thesis
    by (simp add: is_flipped_valid[OF tri_valid] normal_points_inward_def vlength_huge n
          tri_center c vdot_def)
qed

lemma tri_huge_classified: "classify tri_pts [[0, 1, 2]] [vscale huge n_in] = Inr []"
  by (simp add: classify_def fix_flipped_normals_def face_step_def tri_huge_not_flipped)

lemma tri_one_classified: "classify tri_pts [[0, 1, 2]] [n_in] = Inr [0]"
  by (simp add: classify_def fix_flipped_normals_def face_step_def tri_flipped_in)

section \<open>Scaling a normal by a power of two\<close>

text \<open>Multiplying by a power of two commutes with rounding inside the normal range.\<close>

lemma rnd_scale_gen:
  assumes "2 powi (- 1022) \<le> r" "r \<le> 2 powi 1023"
    and "2 powi (- 1022) \<le> 2 powi j * r" "2 powi j * r \<le> 2 powi 1023"
  shows "\<exists>v. rnd r = Fin v \<and> rnd (2 powi j * r) = Fin (2 powi j * v)"
proof -
  let ?k = "expo r"
  let ?u = "(2::real) powi (?k - 52)"
  let ?n = "round_even (r / ?u)"
  have b: "- 1022 \<le> (- 1022::int)" "(1023::int) \<le> 1023" by simp_all
  note e = expo_pos_range[OF assms(1,2) b]
  note f = rnd_pos_form[OF assms(1,2) b]
  note g = rnd_pos_form[OF assms(3,4) b]
  have pj: "0 < (2::real) powi j" by simp
  have "0 < (2::real) powi (- 1022)" by (rule zero_less_power_int) simp
  with assms(1) have rpos: "0 < r" by linarith
  have lt: "r < 2 powi (?k + 1)"
  proof (cases "?k < 1023")
    case True
    from expo_props(4)[OF True] rpos show ?thesis by simp
  next
    case False
    with e(2) have "?k = 1023" by simp
    with assms(2) have "r \<le> 2 powi ?k" by simp
    moreover have "(2::real) powi ?k < 2 powi (?k + 1)" by (intro power_int_strict_increasing) auto
    ultimately show ?thesis by linarith
  qed
  have lo': "2 powi (?k + j) \<le> 2 powi j * r"
    using e(3) pj by (simp add: power_int_add mult.commute)
  have "2 powi j * r < 2 powi j * 2 powi (?k + 1)" using lt pj by simp
  also have "\<dots> = 2 powi (?k + j + 1)"
    using power_int_add[of "2::real" j "?k + 1"] by (simp add: algebra_simps)
  finally have hi': "2 powi j * r < 2 powi (?k + j + 1)" .
  have k': "expo (2 powi j * r) = ?k + j"
  proof (rule expo_eqI)
    show "- 1022 \<le> ?k + j"
    proof (rule ccontr)
      assume "\<not> - 1022 \<le> ?k + j"
      then have "(2::real) powi (?k + j + 1) \<le> 2 powi (- 1022)"
        by (intro power_int_increasing) auto
      with hi' assms(3) show False by linarith
    qed
    show "?k + j \<le> 1023"
    proof (rule ccontr)
      assume "\<not> ?k + j \<le> 1023"
      then have "(2::real) powi 1023 < 2 powi (?k + j)"
        by (intro power_int_strict_increasing) auto
      with lo' assms(4) show False by linarith
    qed
    show "2 powi (?k + j) \<le> \<bar>2 powi j * r\<bar>" using lo' rpos pj by (simp add: abs_mult)
    show "\<bar>2 powi j * r\<bar> < 2 powi (?k + j + 1)" using hi' rpos pj by (simp add: abs_mult)
  qed
  have u': "(2::real) powi (?k + j - 52) = 2 powi j * ?u"
    using power_int_add[of "2::real" j "?k - 52"] by (simp add: algebra_simps)
  have q': "2 powi j * r / 2 powi (?k + j - 52) = r / ?u"
    unfolding u' by simp
  from g have "rnd (2 powi j * r) = Fin (2 powi j * (of_int ?n * ?u))"
    unfolding k' q' u' by (simp add: mult_ac)
  with f show ?thesis by blast
qed

lemma scaled_pair_round:
  assumes "2 powi (- 1000) \<le> r" "r \<le> 2 powi B"
    and "2 powi (- 1000) \<le> 2 powi J * r" "2 powi J * r \<le> 2 powi B" and B: "B \<le> 1023"
  shows "\<exists>v. rnd r = Fin v \<and> rnd (2 powi J * r) = Fin (2 powi J * v) \<and>
             scaled_pair J B v (2 powi J * v) \<and> 0 < v"
proof -
  have lo: "(2::real) powi (- 1022) \<le> 2 powi (- 1000)" by (rule power_int_increasing) simp_all
  have hi: "(2::real) powi B \<le> 2 powi 1023" using B by (intro power_int_increasing) simp_all
  from rnd_scale_gen[of r J] assms lo hi obtain v where
    v: "rnd r = Fin v" "rnd (2 powi J * r) = Fin (2 powi J * v)" by force
  have m: "- 1022 \<le> (- 1000::int)" by simp
  from rnd_range_pos[OF assms(1,2) m B] v(1) have b1: "2 powi (- 1000) \<le> v" "v \<le> 2 powi B"
    by auto
  from rnd_range_pos[OF assms(3,4) m B] v(2)
  have b2: "2 powi (- 1000) \<le> 2 powi J * v" "2 powi J * v \<le> 2 powi B" by auto
  have "0 < (2::real) powi (- 1000)" by (rule zero_less_power_int) simp
  with b1(1) have "0 < v" by linarith
  with v b1 b2 show ?thesis by (auto simp: scaled_pair_def)
qed

lemma scaled_pair_zero [simp]: "scaled_pair J B 0 0"
  by (simp add: scaled_pair_def)

lemma scaled_pair_mono: "B \<le> B' \<Longrightarrow> scaled_pair J B v w \<Longrightarrow> scaled_pair J B' v w"
proof -
  assume B: "B \<le> B'" and p: "scaled_pair J B v w"
  have "(2::real) powi B \<le> 2 powi B'" using B by (intro power_int_increasing) simp_all
  with p show ?thesis unfolding scaled_pair_def by auto
qed

lemma scaled_pair_nonneg: "scaled_pair J B v w \<Longrightarrow> 0 \<le> v \<and> 0 \<le> w \<and> (w = 0 \<longleftrightarrow> v = 0)"
proof -
  assume p: "scaled_pair J B v w"
  have "0 < (2::real) powi (- 1000)" by (rule zero_less_power_int) simp
  with p show ?thesis unfolding scaled_pair_def by auto
qed

lemma scaled_pair_add:
  assumes p1: "scaled_pair J B v1 w1" and p2: "scaled_pair J B v2 w2" and B: "B \<le> 1022"
  shows "\<exists>s. rnd (v1 + v2) = Fin s \<and> rnd (w1 + w2) = Fin (2 powi J * s) \<and>
             scaled_pair J (B + 1) s (2 powi J * s) \<and> (s = 0 \<longleftrightarrow> v1 = 0 \<and> v2 = 0)"
proof (cases "v1 = 0 \<and> v2 = 0")
  case True
  with p1 p2 show ?thesis by (simp add: scaled_pair_def)
next
  case False
  note n1 = scaled_pair_nonneg[OF p1] and n2 = scaled_pair_nonneg[OF p2]
  have w: "w1 + w2 = 2 powi J * (v1 + v2)"
    using p1 p2 by (simp add: scaled_pair_def algebra_simps)
  have two: "(2::real) powi (B + 1) = 2 powi B + 2 powi B"
    using power_int_add[of "2::real" B 1] by simp
  have lo: "2 powi (- 1000) \<le> v1 + v2" "2 powi (- 1000) \<le> w1 + w2"
    using False p1 p2 n1 n2 unfolding scaled_pair_def by auto
  have pos: "0 \<le> (2::real) powi B" by simp
  have hi: "v1 + v2 \<le> 2 powi (B + 1)" "w1 + w2 \<le> 2 powi (B + 1)"
    using p1 p2 pos unfolding scaled_pair_def two by auto
  have B1: "B + 1 \<le> 1023" using B by simp
  from scaled_pair_round[OF lo(1) hi(1) lo(2)[unfolded w] hi(2)[unfolded w] B1]
  obtain s where "rnd (v1 + v2) = Fin s" "rnd (2 powi J * (v1 + v2)) = Fin (2 powi J * s)"
    "scaled_pair J (B + 1) s (2 powi J * s)" "0 < s" by blast
  with False w show ?thesis by auto
qed

lemma pow2_double: "(2::real) powi (2 * k) = 2 powi k * 2 powi k"
  using power_int_add[of "2::real" k k] by simp

lemma sqrt_pow2: "sqrt (2 powi (2 * k)) = 2 powi k"
  by (rule real_sqrt_unique) (simp_all add: power2_eq_square pow2_double)

lemma square_pair:
  assumes "safe_component (Fin x)" "safe_component (Fin (2 powi j * x))"
  shows "\<exists>v. rnd (x * x) = Fin v \<and> rnd ((2 powi j * x) * (2 powi j * x)) = Fin (2 powi (2 * j) * v) \<and>
             scaled_pair (2 * j) 1000 v (2 powi (2 * j) * v) \<and> (v = 0 \<longleftrightarrow> x = 0)"
proof (cases "x = 0")
  case True
  then show ?thesis by simp
next
  case False
  with assms have x: "2 powi (- 500) \<le> \<bar>x\<bar>" "\<bar>x\<bar> \<le> 2 powi 500"
    and y: "2 powi (- 500) \<le> \<bar>2 powi j * x\<bar>" "\<bar>2 powi j * x\<bar> \<le> 2 powi 500"
    by (auto simp: safe_component_def)
  have sq: "x * x = \<bar>x\<bar> * \<bar>x\<bar>" by simp
  have sq': "(2 powi j * x) * (2 powi j * x) = \<bar>2 powi j * x\<bar> * \<bar>2 powi j * x\<bar>" by simp
  have e: "(2 powi j * x) * (2 powi j * x) = 2 powi (2 * j) * (x * x)"
    by (simp add: pow2_double)
  have lo: "(2::real) powi (- 1000) = 2 powi (- 500) * 2 powi (- 500)"
    using pow2_double[of "- 500"] by simp
  have hi: "(2::real) powi 1000 = 2 powi 500 * 2 powi 500"
    using pow2_double[of 500] by simp
  have p: "0 \<le> (2::real) powi (- 500)" by simp
  have b1: "2 powi (- 1000) \<le> x * x" unfolding lo sq using x(1) p by (intro mult_mono) auto
  have b2: "x * x \<le> 2 powi 1000" unfolding hi sq using x(2) by (intro mult_mono) auto
  have b3: "2 powi (- 1000) \<le> 2 powi (2 * j) * (x * x)"
    unfolding e[symmetric] lo sq' using y(1) p by (intro mult_mono) auto
  have b4: "2 powi (2 * j) * (x * x) \<le> 2 powi 1000"
    unfolding e[symmetric] hi sq' using y(2) by (intro mult_mono) auto
  from scaled_pair_round[OF b1 b2 b3 b4] obtain v where
    "rnd (x * x) = Fin v" "rnd (2 powi (2 * j) * (x * x)) = Fin (2 powi (2 * j) * v)"
    "scaled_pair (2 * j) 1000 v (2 powi (2 * j) * v)" "0 < v" by auto
  with False show ?thesis unfolding e by auto
qed

lemma sqrt_pair:
  assumes "scaled_pair (2 * j) 1002 s t"
  shows "\<exists>l. rnd (sqrt s) = Fin l \<and> rnd (sqrt t) = Fin (2 powi j * l) \<and> 0 \<le> l \<and>
             (l = 0 \<longleftrightarrow> s = 0)"
proof (cases "s = 0")
  case True
  with assms show ?thesis by (simp add: scaled_pair_def)
next
  case False
  with assms have t: "t = 2 powi (2 * j) * s"
    and b: "2 powi (- 1000) \<le> s" "s \<le> 2 powi 1002" "2 powi (- 1000) \<le> t" "t \<le> 2 powi 1002"
    by (auto simp: scaled_pair_def)
  have st: "sqrt t = 2 powi j * sqrt s"
    unfolding t by (simp add: real_sqrt_mult sqrt_pow2)
  have l1: "sqrt (2 powi (- 1000)) = 2 powi (- 500)" using sqrt_pow2[of "- 500"] by simp
  have l2: "sqrt (2 powi 1002) = 2 powi 501" using sqrt_pow2[of 501] by simp
  have c1: "2 powi (- 500) \<le> sqrt s" unfolding l1[symmetric] using b(1) by (rule real_sqrt_le_mono)
  have c2: "sqrt s \<le> 2 powi 501" unfolding l2[symmetric] using b(2) by (rule real_sqrt_le_mono)
  have c3: "2 powi (- 500) \<le> 2 powi j * sqrt s"
    unfolding st[symmetric] l1[symmetric] using b(3) by (rule real_sqrt_le_mono)
  have c4: "2 powi j * sqrt s \<le> 2 powi 501"
    unfolding st[symmetric] l2[symmetric] using b(4) by (rule real_sqrt_le_mono)
  have m1: "(2::real) powi (- 1022) \<le> 2 powi (- 500)" by (rule power_int_increasing) simp_all
  have m2: "(2::real) powi 501 \<le> 2 powi 1023" by (rule power_int_increasing) simp_all
  from rnd_scale_gen[of "sqrt s" j] c1 c2 c3 c4 m1 m2 obtain l where
    l: "rnd (sqrt s) = Fin l" "rnd (2 powi j * sqrt s) = Fin (2 powi j * l)" by force
  have "- 1022 \<le> (- 500::int)" "(501::int) \<le> 1023" by simp_all
  from rnd_range_pos[OF c1 c2 this] l(1) have "2 powi (- 500) \<le> l" by auto
  moreover have "0 < (2::real) powi (- 500)" by (rule zero_less_power_int) simp
  ultimately have "0 < l" by linarith
  with l st False show ?thesis by auto
qed

lemma safe_length:
  assumes n: "n = MVector (Fin x) (Fin y) (Fin z)"
    and s: "safe_normal n" "safe_normal (vscale (2 powi j) n)"
  shows "\<exists>l. vlength n = Fin l \<and> vlength (vscale (2 powi j) n) = Fin (2 powi j * l) \<and> 0 \<le> l"
proof -
  from s n have c: "safe_component (Fin x)" "safe_component (Fin (2 powi j * x))"
    "safe_component (Fin y)" "safe_component (Fin (2 powi j * y))"
    "safe_component (Fin z)" "safe_component (Fin (2 powi j * z))"
    by (simp_all add: safe_normal_def vscale_def)
  from square_pair[OF c(1,2)] obtain a where
    a: "rnd (x * x) = Fin a" "rnd ((2 powi j * x) * (2 powi j * x)) = Fin (2 powi (2 * j) * a)"
       "scaled_pair (2 * j) 1000 a (2 powi (2 * j) * a)" by blast
  from square_pair[OF c(3,4)] obtain b where
    b: "rnd (y * y) = Fin b" "rnd ((2 powi j * y) * (2 powi j * y)) = Fin (2 powi (2 * j) * b)"
       "scaled_pair (2 * j) 1000 b (2 powi (2 * j) * b)" by blast
  from square_pair[OF c(5,6)] obtain d where
    d: "rnd (z * z) = Fin d" "rnd ((2 powi j * z) * (2 powi j * z)) = Fin (2 powi (2 * j) * d)"
       "scaled_pair (2 * j) 1000 d (2 powi (2 * j) * d)" by blast
  from scaled_pair_add[OF a(3) b(3)] obtain s1 where
    s1: "rnd (a + b) = Fin s1"
        "rnd (2 powi (2 * j) * a + 2 powi (2 * j) * b) = Fin (2 powi (2 * j) * s1)"
        "scaled_pair (2 * j) 1001 s1 (2 powi (2 * j) * s1)" by auto
  have d': "scaled_pair (2 * j) 1001 d (2 powi (2 * j) * d)"
    using d(3) by (rule scaled_pair_mono[rotated]) simp
  from scaled_pair_add[OF s1(3) d'] obtain s2 where
    s2: "rnd (s1 + d) = Fin s2"
        "rnd (2 powi (2 * j) * s1 + 2 powi (2 * j) * d) = Fin (2 powi (2 * j) * s2)"
        "scaled_pair (2 * j) 1002 s2 (2 powi (2 * j) * s2)" by auto
  from sqrt_pair[OF s2(3)] obtain l where
    l: "rnd (sqrt s2) = Fin l" "rnd (sqrt (2 powi (2 * j) * s2)) = Fin (2 powi j * l)" "0 \<le> l"
    by blast
  note nn = scaled_pair_nonneg[OF s2(3)]
  have "vlength n = Fin l"
    using a(1) b(1) d(1) s1(1) s2(1) l(1) nn by (simp add: n vlength_def vdot_def)
  moreover have "vlength (vscale (2 powi j) n) = Fin (2 powi j * l)"
    using a(2) b(2) d(2) s1(2) s2(2) l(2) nn
    by (simp add: n vscale_def vlength_def vdot_def del: power_int_mult_distrib_numeral1 power_int_mult_distrib_numeral2)
  ultimately show ?thesis using l(3) by blast
qed

lemma safe_scaled_alike:
  assumes s: "safe_normal n" "safe_normal (vscale (2 powi j) n)"
  shows "normal_points_inward (vscale (2 powi j) n) c = normal_points_inward n c"
proof -
  from s(1) obtain x y z where n: "n = MVector (Fin x) (Fin y) (Fin z)"
    by (cases n; cases "vx n"; cases "vy n"; cases "vz n")
       (auto simp: safe_normal_def safe_component_def)
  from safe_length[OF n s] obtain l where
    l: "vlength n = Fin l" "vlength (vscale (2 powi j) n) = Fin (2 powi j * l)" "0 \<le> l" by blast
  show ?thesis
  proof (cases "l = 0")
    case True
    with l show ?thesis by (simp add: normal_points_inward_def)
  next
    case False
    with l(3) have pos: "0 < l" by simp
    have n1: "vnormal n = vdiv n (Fin l)" by (simp add: vnormal_def l(1))
    have n2: "vnormal (vscale (2 powi j) n) = vdiv (vscale (2 powi j) n) (Fin (2 powi j * l))"
      by (simp add: vnormal_def l(2))
    have "vnormal (vscale (2 powi j) n) = vnormal n"
      unfolding n1 n2 using pos by (simp add: vdiv_def n vscale_def)
    with pos show ?thesis
      by (simp add: normal_points_inward_def l zero_less_mult_iff)
  qed
qed


section \<open>Scaling a normal by three\<close>

lemma slant_center: "computed_center slant_tri [0, Suc 0, 2] = MVector (Fin (- 2)) (Fin 3) (Fin (- 1))"
  by (simp add: computed_center_def slant_tri_def vzero_def vadd_def vdiv_def)

lemma slant_valid: "\<forall>v\<in>set [0, Suc 0, 2]. v < length slant_tri"
  by (simp add: slant_tri_def)

lemma rnd_sqrt3_exact: "rnd (sqrt 3) = Fin (7800463371553962 / 2 ^ 52)"
proof -
  have lo: "15600926743107923 / 2 ^ 53 < sqrt 3" by (rule real_less_rsqrt) (simp add: power2_eq_square)
  have hi: "sqrt 3 < 15600926743107925 / 2 ^ 53" by (rule real_less_lsqrt) (simp_all add: power2_eq_square)
  have "rnd (sqrt 3) = Fin (of_int 7800463371553962 * 2 powi (0 - 52))"
  proof (rule rnd_eval)
    have q: "sqrt 3 / 2 powi (0 - 52) = sqrt 3 * 4503599627370496" by simp
    from lo have a: "15600926743107923 / 2 < sqrt 3 * 4503599627370496" by simp
    from hi have b: "sqrt 3 * 4503599627370496 < 15600926743107925 / 2" by simp
    show "round_even (sqrt 3 / 2 powi (0 - 52)) = 7800463371553962"
      unfolding q by (rule round_even_near) (use a b in linarith)
    show "\<bar>sqrt 3\<bar> < 2 powi (0 + 1)" using hi by simp
    show "2 powi 0 \<le> \<bar>sqrt 3\<bar>" by simp
  qed simp_all
  then show ?thesis by simp
qed

lemma rnd_sqrt27_exact: "rnd (sqrt 27) = Fin (5850347528665472 / 2 ^ 50)"
proof -
  have lo: "11700695057330943 / 2 ^ 51 < sqrt 27" by (rule real_less_rsqrt) (simp add: power2_eq_square)
  have hi: "sqrt 27 < 11700695057330945 / 2 ^ 51" by (rule real_less_lsqrt) (simp_all add: power2_eq_square)
  have "rnd (sqrt 27) = Fin (of_int 5850347528665472 * 2 powi (2 - 52))"
  proof (rule rnd_eval)
    have q: "sqrt 27 / 2 powi (2 - 52) = sqrt 27 * 1125899906842624" by simp
    from lo have a: "11700695057330943 / 2 < sqrt 27 * 1125899906842624" by simp
    from hi have b: "sqrt 27 * 1125899906842624 < 11700695057330945 / 2" by simp
    show "round_even (sqrt 27 / 2 powi (2 - 52)) = 5850347528665472"
      unfolding q by (rule round_even_near) (use a b in linarith)
    show "\<bar>sqrt 27\<bar> < 2 powi (2 + 1)" using hi by simp
    show "2 powi 2 \<le> \<bar>sqrt 27\<bar>" using lo by simp
  qed simp_all
  then show ?thesis by simp
qed


lemma rnd_inv_s3: "rnd (- 1 / (7800463371553962 / 2 ^ 52)) = Fin (- (5200308914369309 / 2 ^ 53))"
proof -
  have "rnd (- 1 / (7800463371553962 / 2 ^ 52)) =
        Fin (of_int (- 5200308914369309) * 2 powi (- 1 - 52))"
  proof (rule rnd_eval)
    show "round_even (- 1 / (7800463371553962 / 2 ^ 52) / 2 powi (- 1 - 52)) = - 5200308914369309"
      by (rule round_even_near) simp
  qed simp_all
  then show ?thesis by simp
qed

lemma rnd_inv_s27: "rnd (- 3 / (5850347528665472 / 2 ^ 50)) = Fin (- (5200308914369308 / 2 ^ 53))"
proof -
  have "rnd (- 3 / (5850347528665472 / 2 ^ 50)) =
        Fin (of_int (- 5200308914369308) * 2 powi (- 1 - 52))"
  proof (rule rnd_eval)
    show "round_even (- 3 / (5850347528665472 / 2 ^ 50) / 2 powi (- 1 - 52)) = - 5200308914369308"
      by (rule round_even_near) simp
  qed simp_all
  then show ?thesis by simp
qed

text \<open>Three times the unit component is a tie and rounds to the even neighbour.\<close>

lemma rnd_3t: "rnd (- (5200308914369309 / 2 ^ 53) * 3) = Fin (- (7800463371553964 / 2 ^ 52))"
proof -
  have t: "round_even (- (of_int 7800463371553963 + 1 / 2)) = - 7800463371553964"
    unfolding round_even_minus by (subst round_even_tie[OF refl]) simp
  have "rnd (- (15600926743107927 / 2 ^ 53)) = Fin (of_int (- 7800463371553964) * 2 powi (0 - 52))"
  proof (rule rnd_eval)
    have "- (15600926743107927 / 2 ^ 53) / 2 powi (0 - 52) =
          - (real_of_int 7800463371553963 + 1 / 2)" by simp
    then show "round_even (- (15600926743107927 / 2 ^ 53) / 2 powi (0 - 52)) = - 7800463371553964"
      using t by (simp only:)
  qed simp_all
  then show ?thesis by simp
qed

lemma rnd_2t: "rnd (- (5200308914369309 / 2 ^ 53) * - 2) = Fin (5200308914369309 / 2 ^ 52)"
  using rnd_dyadic[of 5200308914369309 "- 52"] by simp

lemma rnd_1t: "rnd (- (5200308914369309 / 2 ^ 53) * - 1) = Fin (5200308914369309 / 2 ^ 53)"
  using rnd_dyadic[of 5200308914369309 "- 53"] by simp

lemma rnd_sum1: "rnd (5200308914369309 / 2 ^ 52 + - (7800463371553964 / 2 ^ 52)) =
    Fin (- (5200308914369310 / 2 ^ 53))"
  using rnd_dyadic[of "- 5200308914369310" "- 53"] by simp

lemma rnd_sum2: "rnd (- (5200308914369310 / 2 ^ 53) + 5200308914369309 / 2 ^ 53) =
    Fin (- (1 / 2 ^ 53))"
  using rnd_dyadic[of "- 1" "- 53"] by simp

lemma rnd_3u: "rnd (- (5200308914369308 / 2 ^ 53) * 3) = Fin (- (7800463371553962 / 2 ^ 52))"
  using rnd_dyadic[of "- 7800463371553962" "- 52"] by simp

lemma rnd_2u: "rnd (- (5200308914369308 / 2 ^ 53) * - 2) = Fin (5200308914369308 / 2 ^ 52)"
  using rnd_dyadic[of 5200308914369308 "- 52"] by simp

lemma rnd_1u: "rnd (- (5200308914369308 / 2 ^ 53) * - 1) = Fin (5200308914369308 / 2 ^ 53)"
  using rnd_dyadic[of 5200308914369308 "- 53"] by simp

lemma rnd_sum1u: "rnd (5200308914369308 / 2 ^ 52 + - (7800463371553962 / 2 ^ 52)) =
    Fin (- (5200308914369308 / 2 ^ 53))"
  using rnd_dyadic[of "- 5200308914369308" "- 53"] by simp

lemma slant_dot_in:
  "vlength n_in = Fin (7800463371553962 / 2 ^ 52)"
  "vdot (vnormal n_in) (MVector (Fin (- 2)) (Fin 3) (Fin (- 1))) = Fin (- (1 / 2 ^ 53))"
  using rnd_sqrt3_exact rnd_inv_s3 rnd_3t rnd_2t rnd_1t rnd_sum1 rnd_sum2
  by (simp_all add: vnormal_def vlength_def vdot_def vdiv_def n_in_def)

lemma slant_dot_3:
  "vlength (vscale 3 n_in) = Fin (5850347528665472 / 2 ^ 50)"
  "vdot (vnormal (vscale 3 n_in)) (MVector (Fin (- 2)) (Fin 3) (Fin (- 1))) = Fin 0"
  using rnd_sqrt27_exact rnd_inv_s27 rnd_3u rnd_2u rnd_1u rnd_sum1u
  by (simp_all add: vnormal_def vlength_def vdot_def vdiv_def n_in_def vscale_def)

lemma slant_flipped_in: "is_flipped slant_tri [0, Suc 0, 2] n_in = Inr True"
  by (simp add: is_flipped_valid[OF slant_valid] normal_points_inward_def slant_center slant_dot_in)

lemma slant_flipped_3: "is_flipped slant_tri [0, Suc 0, 2] (vscale 3 n_in) = Inr False"
  by (simp add: is_flipped_valid[OF slant_valid] normal_points_inward_def slant_center slant_dot_3)

lemma slant_classified_in: "classify slant_tri [[0, 1, 2]] [n_in] = Inr [0]"
  by (simp add: classify_def fix_flipped_normals_def face_step_def slant_flipped_in)

lemma slant_classified_3: "classify slant_tri [[0, 1, 2]] [vscale 3 n_in] = Inr []"
  by (simp add: classify_def fix_flipped_normals_def face_step_def slant_flipped_3)

section \<open>The claims\<close>

text \<open>
  C1, for the dot product in double arithmetic: when the classifier returns, a face
  with a vertex list that is not empty and a normal whose computed length is not zero is
  among the flagged faces if and only if the dot product that the script computes, of
  \<^verbatim>\<open>normal()\<close> with the running sum of the face's vertices divided by their number, is
  strictly negative. The decision is a function of that computed dot product alone.
\<close>

theorem flagged_iff_computed_dot_negative:
  assumes "classify pts fs ns = Inr ids"
    and "i < length fs" and "fs ! i \<noteq> []" and "vlength (ns ! i) \<noteq> Fin 0"
  shows "i \<in> set ids \<longleftrightarrow> fless (computed_dot pts (fs ! i) (ns ! i)) (Fin 0)"
  using classify_member[OF assms(1,2)] normal_points_inward_iff[OF assms(4)]
  by (simp add: computed_dot_def)

theorem flagged_iff_computed_dot_negative_witness:
  "classify tri_pts [[0, 1, 2], [0, 1, 2]] [n_in, n_out] = Inr [0] \<and>
   vlength n_in \<noteq> Fin 0 \<and> vlength n_out \<noteq> Fin 0 \<and>
   fless (computed_dot tri_pts [0, 1, 2] n_in) (Fin 0) \<and>
   \<not> fless (computed_dot tri_pts [0, 1, 2] n_out) (Fin 0)"
proof -
  have a: "classify tri_pts [[0, 1, 2], [0, 1, 2]] [n_in, n_out] = Inr [0]"
    by (rule two_triangles)
  from rnd_sqrt3 obtain s where "rnd (sqrt 3) = Fin s" "1 \<le> s" by blast
  then have l: "vlength n_in \<noteq> Fin 0" "vlength n_out \<noteq> Fin 0"
    by (simp_all add: vlength_n_in vlength_n_out)
  have "0 \<in> set [0::nat] \<longleftrightarrow>
      fless (computed_dot tri_pts ([[0, 1, 2], [0, 1, 2]] ! 0) ([n_in, n_out] ! 0)) (Fin 0)"
    by (rule flagged_iff_computed_dot_negative[OF a]) (simp_all add: l)
  moreover have "1 \<in> set [0::nat] \<longleftrightarrow>
      fless (computed_dot tri_pts ([[0, 1, 2], [0, 1, 2]] ! 1) ([n_in, n_out] ! 1)) (Fin 0)"
    by (rule flagged_iff_computed_dot_negative[OF a]) (simp_all add: l)
  ultimately show ?thesis using a l by simp
qed

text \<open>
  C1 does not hold for the exact dot product of the unit normal with the average of
  the vertices. On the triangle \<open>round_tri\<close> with the normal \<open>(-1, 0, 0)\<close> the vertices
  are doubles, the exact dot product is \<open>-1 / 2\<^sup>5\<^sup>4\<close>, the running sum of the \<open>x\<close>
  coordinates is \<open>0\<close> in doubles, and the face is not flagged.
\<close>

theorem flagged_iff_exact_dot_counterexample:
  "is_double d03 \<and> is_double d27 \<and>
   vlength (MVector (Fin (- 1)) (Fin 0) (Fin 0)) = Fin 1 \<and>
   exact_dot round_tri [0, 1, 2] (MVector (Fin (- 1)) (Fin 0) (Fin 0)) = - (1 / 2 ^ 54) \<and>
   classify round_tri [[0, 1, 2]] [MVector (Fin (- 1)) (Fin 0) (Fin 0)] = Inr [] \<and>
   \<not> ((0::nat) \<in> set [] \<longleftrightarrow>
        exact_dot round_tri [0, 1, 2] (MVector (Fin (- 1)) (Fin 0) (Fin 0)) < 0)"
  using d03_double d27_double unit_x_neg(1) round_tri_exact round_tri_classified
  by simp

text \<open>
  C2: a face whose vertex list is empty raises nothing and is not flagged, whatever its
  normal: its centre is \<open>0.0 / 0\<close>, a NaN, and the comparison of line 62 is false. The
  turn of the loop for such a face leaves the state as it was, and the face is in no
  flagged list the classifier returns.
\<close>

theorem empty_face_never_flagged:
  "is_flipped pts [] n = Inr False \<and>
   (j < length (normals (mesh_fn s)) \<and> j < length (faces (mesh_fn s)) \<and>
    faces (mesh_fn s) ! j = [] \<longrightarrow> face_step j s = Inr s) \<and>
   (classify pts fs ns = Inr ids \<and> i < length fs \<and> fs ! i = [] \<longrightarrow> i \<notin> set ids)"
proof (intro conjI)
  show "is_flipped pts [] n = Inr False"
    by (rule is_flipped_empty)
  show "j < length (normals (mesh_fn s)) \<and> j < length (faces (mesh_fn s)) \<and>
    faces (mesh_fn s) ! j = [] \<longrightarrow> face_step j s = Inr s"
    by (simp add: face_step_def is_flipped_empty)
  show "classify pts fs ns = Inr ids \<and> i < length fs \<and> fs ! i = [] \<longrightarrow> i \<notin> set ids"
    using classify_member[of pts fs ns ids i]
    by (auto simp: computed_center_empty normal_points_inward_NaN)
qed

theorem empty_face_never_flagged_witness:
  "is_flipped tri_pts [] n_in = Inr False \<and>
   face_step 1 \<lparr>mesh_fn = \<lparr>vertices = tri_pts, faces = [[0, 1, 2], [], [0, 1, 2]],
                              normals = [n_in, n_in, vzero]\<rparr>, flipped_faces = [0]\<rparr>
     = Inr \<lparr>mesh_fn = \<lparr>vertices = tri_pts, faces = [[0, 1, 2], [], [0, 1, 2]],
                          normals = [n_in, n_in, vzero]\<rparr>, flipped_faces = [0]\<rparr> \<and>
   classify tri_pts [[0, 1, 2], [], [0, 1, 2]] [n_in, n_in, vzero] = Inr [0] \<and>
   [[0, 1, 2], [], [0, 1, 2]] ! 1 = ([] :: nat list) \<and> (1::nat) \<notin> set [0]"
  using empty_face_never_flagged[of tri_pts n_in 1
          "\<lparr>mesh_fn = \<lparr>vertices = tri_pts, faces = [[0, 1, 2], [], [0, 1, 2]],
                        normals = [n_in, n_in, vzero]\<rparr>, flipped_faces = [0]\<rparr>"
          "[[0, 1, 2], [], [0, 1, 2]]" "[n_in, n_in, vzero]" "[0]" 1] degenerate_faces
  by simp

text \<open>
  C3: on an input that satisfies the preconditions (as many normals as faces, no face
  without vertices, every vertex id an index into the vertex list) the classifier raises
  nothing: it returns a list of face ids.
\<close>

theorem classify_never_raises:
  assumes "well_formed pts fs ns"
  shows "\<exists>ids. classify pts fs ns = Inr ids"
proof -
  let ?s = "\<lparr>mesh_fn = \<lparr>vertices = pts, faces = fs, normals = ns\<rparr>, flipped_faces = []\<rparr>"
  from assms have "\<exists>s'. face_loop [0 ..< length fs] ?s = Inr s'"
    by (intro face_loop_succeeds) (auto simp: well_formed_def)
  then show ?thesis
    by (auto simp: classify_def fix_flipped_normals_def)
qed

theorem classify_never_raises_witness:
  "well_formed tri_pts [[0, 1, 2], [0, 1, 2]] [n_in, n_out] \<and>
   (\<exists>ids. classify tri_pts [[0, 1, 2], [0, 1, 2]] [n_in, n_out] = Inr ids)"
proof -
  have w: "well_formed tri_pts [[0, 1, 2], [0, 1, 2]] [n_in, n_out]"
    by (simp add: well_formed_def tri_pts_def)
  from classify_never_raises[OF w] w show ?thesis by simp
qed

text \<open>
  C4: a face whose normal has length zero, such as the normal \<open>(0,0,0)\<close>, is never
  flagged, whatever its vertices. When its vertex ids are indices into the vertex list
  it raises nothing and the turn of the loop for it leaves the state as it was. It is in
  no flagged list the classifier returns.
\<close>

theorem zero_normal_never_flagged:
  assumes "vlength n = Fin 0"
  shows "is_flipped pts f n \<noteq> Inr True \<and>
    ((\<forall>v\<in>set f. v < length pts) \<longrightarrow> is_flipped pts f n = Inr False) \<and>
    (j < length (normals (mesh_fn s)) \<and> j < length (faces (mesh_fn s)) \<and>
     normals (mesh_fn s) ! j = n \<and>
     (\<forall>v\<in>set (faces (mesh_fn s) ! j). v < length (vertices (mesh_fn s)))
       \<longrightarrow> face_step j s = Inr s) \<and>
    (classify pts fs ns = Inr ids \<and> i < length fs \<and> ns ! i = n \<longrightarrow> i \<notin> set ids)"
proof (intro conjI)
  show "is_flipped pts f n \<noteq> Inr True"
    using is_flipped_Inr[of pts f n True] zero_length_not_inward[OF assms] by blast
  show f: "(\<forall>v\<in>set f. v < length pts) \<longrightarrow> is_flipped pts f n = Inr False" for f pts
    using is_flipped_valid[of f pts n] zero_length_not_inward[OF assms] by simp
  show "j < length (normals (mesh_fn s)) \<and> j < length (faces (mesh_fn s)) \<and>
     normals (mesh_fn s) ! j = n \<and>
     (\<forall>v\<in>set (faces (mesh_fn s) ! j). v < length (vertices (mesh_fn s)))
       \<longrightarrow> face_step j s = Inr s"
    using f[of "faces (mesh_fn s) ! j" "vertices (mesh_fn s)"]
    by (auto simp: face_step_def)
  show "classify pts fs ns = Inr ids \<and> i < length fs \<and> ns ! i = n \<longrightarrow> i \<notin> set ids"
    using classify_member[of pts fs ns ids i] zero_length_not_inward[OF assms] by auto
qed

theorem zero_normal_never_flagged_witness:
  "vlength (MVector (Fin 0) (Fin 0) (Fin 0)) = Fin 0 \<and>
   is_flipped tri_pts [0, 1, 2] (MVector (Fin 0) (Fin 0) (Fin 0)) = Inr False \<and>
   face_step 2 \<lparr>mesh_fn = \<lparr>vertices = tri_pts, faces = [[0, 1, 2], [], [0, 1, 2]],
                              normals = [n_in, n_in, vzero]\<rparr>, flipped_faces = [0]\<rparr>
     = Inr \<lparr>mesh_fn = \<lparr>vertices = tri_pts, faces = [[0, 1, 2], [], [0, 1, 2]],
                          normals = [n_in, n_in, vzero]\<rparr>, flipped_faces = [0]\<rparr> \<and>
   classify tri_pts [[0, 1, 2], [], [0, 1, 2]] [n_in, n_in, vzero] = Inr [0] \<and>
   (2::nat) \<notin> set [0]"
proof -
  have z: "vlength (MVector (Fin 0) (Fin 0) (Fin 0)) = Fin 0"
    using vlength_vzero by (simp add: vzero_def)
  from zero_normal_never_flagged[OF z, of tri_pts "[0, 1, 2]" 2
         "\<lparr>mesh_fn = \<lparr>vertices = tri_pts, faces = [[0, 1, 2], [], [0, 1, 2]],
                       normals = [n_in, n_in, vzero]\<rparr>, flipped_faces = [0]\<rparr>"
         "[[0, 1, 2], [], [0, 1, 2]]" "[n_in, n_in, vzero]" "[0]" 2] z degenerate_faces
  show ?thesis by (simp add: tri_pts_def vzero_def)
qed

text \<open>
  C5, for the dot product in double arithmetic: a face whose dot product, as the
  script computes it, is exactly zero is not flagged, the test being strict. The quad with the
  vertices \<open>(2,0,0), (2,2,0), (0,2,0), (0,0,0)\<close> and the normal \<open>(0,0,1)\<close> has the dot
  product zero, exact and computed, and is not flagged.
\<close>

theorem zero_computed_dot_not_flagged:
  "(classify pts fs ns = Inr ids \<and> i < length fs \<and> computed_dot pts (fs ! i) (ns ! i) = Fin 0
      \<longrightarrow> i \<notin> set ids) \<and>
   exact_dot quad_pts [0, 1, 2, 3] (MVector (Fin 0) (Fin 0) (Fin 1)) = 0 \<and>
   computed_dot quad_pts [0, 1, 2, 3] (MVector (Fin 0) (Fin 0) (Fin 1)) = Fin 0 \<and>
   classify quad_pts [[0, 1, 2, 3]] [MVector (Fin 0) (Fin 0) (Fin 1)] = Inr []"
proof (intro conjI impI)
  assume a: "classify pts fs ns = Inr ids \<and> i < length fs \<and>
    computed_dot pts (fs ! i) (ns ! i) = Fin 0"
  then have "\<not> normal_points_inward (ns ! i) (computed_center pts (fs ! i))"
    by (simp add: normal_points_inward_def vnormal_def computed_dot_def)
  with a classify_member[of pts fs ns ids i] show "i \<notin> set ids" by simp
next
  show "exact_dot quad_pts [0, 1, 2, 3] (MVector (Fin 0) (Fin 0) (Fin 1)) = 0"
    by (simp add: exact_dot_def exact_center_def quad_pts_def)
next
  show "computed_dot quad_pts [0, 1, 2, 3] (MVector (Fin 0) (Fin 0) (Fin 1)) = Fin 0"
    using quad_dot by simp
next
  show "classify quad_pts [[0, 1, 2, 3]] [MVector (Fin 0) (Fin 0) (Fin 1)] = Inr []"
    by (rule quad_classified)
qed

theorem zero_computed_dot_not_flagged_witness:
  "classify quad_pts [[0, 1, 2, 3]] [MVector (Fin 0) (Fin 0) (Fin 1)] = Inr [] \<and>
   computed_dot quad_pts ([[0, 1, 2, 3]] ! 0) ([MVector (Fin 0) (Fin 0) (Fin 1)] ! 0) = Fin 0 \<and>
   (0::nat) \<notin> set []"
  using zero_computed_dot_not_flagged[of quad_pts "[[0, 1, 2, 3]]"
          "[MVector (Fin 0) (Fin 0) (Fin 1)]" "[]" 0]
  by simp

text \<open>
  C5 does not hold for the exact dot product. On the quad \<open>round_quad\<close> with the normal
  \<open>(1, 0, 0)\<close> the vertices are doubles, the exact dot product is \<open>0\<close>, the running sum of
  the \<open>x\<close> coordinates leaves \<open>-1 / 2\<^sup>5\<^sup>2\<close> in doubles, the computed dot product is
  \<open>-1 / 2\<^sup>5\<^sup>4\<close>, and the face is flagged.
\<close>

theorem zero_exact_dot_flagged_counterexample:
  "is_double d12 \<and>
   exact_dot round_quad [0, 1, 2, 3] (MVector (Fin 1) (Fin 0) (Fin 0)) = 0 \<and>
   computed_dot round_quad [0, 1, 2, 3] (MVector (Fin 1) (Fin 0) (Fin 0)) = Fin (- (1 / 2 ^ 54)) \<and>
   classify round_quad [[0, 1, 2, 3]] [MVector (Fin 1) (Fin 0) (Fin 0)] = Inr [0] \<and>
   (0::nat) \<in> set [0]"
  using d12_double round_quad_exact round_quad_dot round_quad_classified
  by simp

text \<open>
  C6: on the two faces of scenario 4, the triangle \<open>(1,0,0), (0,1,0), (0,0,1)\<close> with the
  normal \<open>(-1,-1,-1)\<close> and the same triangle with the normal \<open>(1,1,1)\<close>, the classifier
  returns exactly face 0. The exact dot products are \<open>-1 / sqrt 3\<close> and \<open>1 / sqrt 3\<close>, and
  the dot products computed in doubles have the same signs.
\<close>

theorem scenario_batch:
  "classify tri_pts [[0, 1, 2], [0, 1, 2]] [n_in, n_out] = Inr [0] \<and>
   exact_dot tri_pts [0, 1, 2] n_in = - 1 / sqrt 3 \<and> - 1 / sqrt 3 < (0::real) \<and>
   exact_dot tri_pts [0, 1, 2] n_out = 1 / sqrt 3 \<and> (0::real) < 1 / sqrt 3 \<and>
   fless (computed_dot tri_pts [0, 1, 2] n_in) (Fin 0) \<and>
   \<not> fless (computed_dot tri_pts [0, 1, 2] n_out) (Fin 0)"
proof -
  from rnd_sqrt3 obtain s where s: "rnd (sqrt 3) = Fin s" "1 \<le> s" by blast
  have "fless (computed_dot tri_pts [0, Suc 0, 2] n_in) (Fin 0)"
    using tri_inward_in s
    by (simp add: normal_points_inward_def vnormal_def computed_dot_def vlength_n_in)
  moreover have "\<not> fless (computed_dot tri_pts [0, Suc 0, 2] n_out) (Fin 0)"
    using tri_inward_out s
    by (simp add: normal_points_inward_def vnormal_def computed_dot_def vlength_n_out)
  ultimately show ?thesis
    using two_triangles tri_exact_in tri_exact_out by simp
qed

text \<open>
  C7: a second run on the state the first run leaves (the mesh unchanged) has the same
  outcome as the first: the same flagged faces, or the same error.
\<close>

theorem classify_twice_same: "fix_flipped_normals (final_state (fix_flipped_normals s)) = fix_flipped_normals s"
  by (rule fix_flipped_normals_cong) (rule fix_flipped_normals_mesh)

text \<open>
  C8: a run writes to nothing but its own list of flagged faces: the vertex positions,
  the vertex lists of the faces and the normals are after the run, returned or raised,
  what they were before.
\<close>

theorem classify_frame:
  "vertices (mesh_fn (final_state (fix_flipped_normals s))) = vertices (mesh_fn s) \<and>
   faces (mesh_fn (final_state (fix_flipped_normals s))) = faces (mesh_fn s) \<and>
   normals (mesh_fn (final_state (fix_flipped_normals s))) = normals (mesh_fn s)"
  by (simp add: fix_flipped_normals_mesh)

text \<open>
  C9: the flagged face ids the classifier returns are in strictly increasing order, so
  none is repeated, and each is below the number of faces.
\<close>

theorem flagged_ids_sorted_in_range:
  assumes "classify pts fs ns = Inr ids"
  shows "sorted_wrt (<) ids \<and> distinct ids \<and> (\<forall>i\<in>set ids. i < length fs)"
  unfolding classify_Inr(1)[OF assms]
  by (simp add: sorted_wrt_filter)

theorem flagged_ids_sorted_in_range_witness:
  "classify tri_pts [[0, 1, 2], [0, 1, 2], [0, 1, 2]] [n_in, n_out, n_in] = Inr [0, 2] \<and>
   sorted_wrt (<) [0, 2 :: nat] \<and> distinct [0, 2 :: nat] \<and>
   (0::nat) < length [[0, 1, 2], [0, 1, 2], [0, 1, 2 :: nat]] \<and>
   (2::nat) < length [[0, 1, 2], [0, 1, 2], [0, 1, 2 :: nat]]"
  using flagged_ids_sorted_in_range[OF three_triangles] three_triangles
  by simp

text \<open>
  C10, for powers of two: multiplying the normals of any subset of the faces by a power
  of two \<open>2\<^sup>j\<close> changes nothing in the outcome of the classifier, provided each of these normals
  is safe before and after: its components are finite and each is zero or of a magnitude
  between \<open>2\<^sup>-\<^sup>5\<^sup>0\<^sup>0\<close> and \<open>2\<^sup>5\<^sup>0\<^sup>0\<close>, so that no square under the root of the length overflows
  or underflows.
\<close>

theorem classify_pow2_scale_invariant:
  assumes "pow2_scaled_normals j ns ns'"
  shows "classify pts fs ns' = classify pts fs ns"
  unfolding classify_map_sum
proof (rule face_loop_alike)
  show "alike_state
     \<lparr>mesh_fn = \<lparr>vertices = pts, faces = fs, normals = ns\<rparr>, flipped_faces = []\<rparr>
     \<lparr>mesh_fn = \<lparr>vertices = pts, faces = fs, normals = ns'\<rparr>, flipped_faces = []\<rparr>"
    using assms safe_scaled_alike
    by (auto simp: alike_state_def pow2_scaled_normals_def)
qed

theorem classify_pow2_scale_invariant_witness:
  "pow2_scaled_normals 1 [n_in, n_out] [MVector (Fin (- 2)) (Fin (- 2)) (Fin (- 2)), n_out] \<and>
   classify tri_pts [[0, 1, 2], [0, 1, 2]] [MVector (Fin (- 2)) (Fin (- 2)) (Fin (- 2)), n_out]
     = Inr [0]"
proof -
  have s: "pow2_scaled_normals 1 [n_in, n_out] [MVector (Fin (- 2)) (Fin (- 2)) (Fin (- 2)), n_out]"
    by (auto simp: pow2_scaled_normals_def safe_normal_def safe_component_def n_in_def vscale_def
          less_Suc_eq numeral_2_eq_2)
  have "classify tri_pts [[0, 1, 2], [0, 1, 2]]
          [MVector (Fin (- 2)) (Fin (- 2)) (Fin (- 2)), n_out]
        = classify tri_pts [[0, 1, 2], [0, 1, 2]] [n_in, n_out]"
    by (rule classify_pow2_scale_invariant[OF s])
  with s two_triangles show ?thesis by simp
qed

text \<open>
  C10 does not hold for every positive factor. On the triangle \<open>slant_tri\<close>
  the normal \<open>(-1,-1,-1)\<close> is flagged, its computed dot product being \<open>-1 / 2\<^sup>5\<^sup>3\<close>, and
  three times that normal is not, its computed dot product being \<open>0\<close>. On the triangle of
  the scenarios the normal \<open>(-1,-1,-1)\<close> is flagged and \<open>2\<^sup>6\<^sup>0\<^sup>0\<close> times that normal is not:
  the squares overflow, the length is infinite and the unit normal is zero.
\<close>

theorem scale_changes_flags_counterexample:
  "(0::real) < 3 \<and> well_formed slant_tri [[0, 1, 2]] [n_in] \<and>
   vscale 3 n_in = MVector (Fin (- 3)) (Fin (- 3)) (Fin (- 3)) \<and>
   scaled_normals 3 [n_in] [vscale 3 n_in] \<and>
   classify slant_tri [[0, 1, 2]] [n_in] = Inr [0] \<and>
   classify slant_tri [[0, 1, 2]] [vscale 3 n_in] = Inr [] \<and>
   0 < huge \<and> is_double huge \<and> well_formed tri_pts [[0, 1, 2]] [n_in] \<and>
   scaled_normals huge [n_in] [vscale huge n_in] \<and>
   classify tri_pts [[0, 1, 2]] [n_in] = Inr [0] \<and>
   classify tri_pts [[0, 1, 2]] [vscale huge n_in] = Inr []"
proof -
  have "vscale 3 n_in = MVector (Fin (- 3)) (Fin (- 3)) (Fin (- 3))"
    by (simp add: vscale_def n_in_def)
  moreover have "well_formed slant_tri [[0, 1, 2]] [n_in]"
    by (simp add: well_formed_def slant_tri_def)
  moreover have "well_formed tri_pts [[0, 1, 2]] [n_in]"
    by (simp add: well_formed_def tri_pts_def)
  moreover have "scaled_normals 3 [n_in] [vscale 3 n_in]"
    "scaled_normals huge [n_in] [vscale huge n_in]"
    by (simp_all add: scaled_normals_def)
  ultimately show ?thesis
    using slant_classified_in slant_classified_3 huge_pos huge_double tri_one_classified
      tri_huge_classified
    by simp
qed

end
